theory Spec2Isabelle
  imports Complex_Main "HOL-Library.Multiset"
begin

section \<open>Count Sketch over a stream: the program as HOL functions\<close>

text \<open>
  The development follows \<^verbatim>\<open>count-sketch-code.py\<close>. The module's global variables are
  the fields of one record that every function receives and returns. Python integers are
  \<open>int\<close>. The tokens of the command line and of the stream are given by the integers
  that \<^verbatim>\<open>int(...)\<close> reads from them. A dictionary is an association list in insertion
  order, which is the order Python iterates it in. The hash parameters are NumPy 64-bit
  integers, and the arithmetic on them wraps around at 64 bits. The sketch is a NumPy
  array of floats that only ever holds sums of \<open>+1\<close> and \<open>-1\<close>; its cells are modelled
  as \<open>int\<close>, and the floating-point results computed from them as exact rationals
  (\<open>Fin\<close>), with the special values a NumPy float can take written out.
\<close>

subsection \<open>Errors and values\<close>

datatype py_error =
  AssertionError | ValueError | IndexError | KeyError | NameError | ZeroDivisionError
  | OverflowError

datatype npfloat = Fin rat | PInf | NInf | NaN

text \<open>Sequencing of fallible steps: the first exception ends the computation.\<close>

definition bind_err :: "py_error + 'x \<Rightarrow> ('x \<Rightarrow> py_error + 'y) \<Rightarrow> py_error + 'y" where
  "bind_err m f = (case m of Inl e \<Rightarrow> Inl e | Inr v \<Rightarrow> f v)"

text \<open>
  Indexing a sequence of length \<open>n\<close> with a Python or NumPy integer: a negative index
  counts from the end, anything outside \<open>[-n, n)\<close> raises \<^verbatim>\<open>IndexError\<close>.
\<close>

definition py_index :: "nat \<Rightarrow> int \<Rightarrow> py_error + nat" where
  "py_index n i =
     (if 0 \<le> i \<and> i < int n then Inr (nat i)
      else if - int n \<le> i \<and> i < 0 then Inr (nat (int n + i))
      else Inl IndexError)"

definition py_get :: "'x list \<Rightarrow> int \<Rightarrow> py_error + 'x" where
  "py_get xs i = bind_err (py_index (length xs) i) (\<lambda>k. Inr (xs ! k))"

text \<open>\<^verbatim>\<open>np.arange(lo, hi)\<close> on integers.\<close>

definition np_arange :: "int \<Rightarrow> int \<Rightarrow> int list" where
  "np_arange lo hi = [lo..hi - 1]"

subsection \<open>Dictionaries\<close>

text \<open>
  \<open>dict_set\<close> is \<^verbatim>\<open>d[k] = v\<close>: an existing key keeps its place, a new key goes to the
  end. \<open>dict_get\<close> is \<^verbatim>\<open>d[k]\<close>, which raises \<^verbatim>\<open>KeyError\<close> on a missing key.
\<close>

type_synonym ('k, 'v) dict = "('k \<times> 'v) list"

primrec dict_set :: "('k, 'v) dict \<Rightarrow> 'k \<Rightarrow> 'v \<Rightarrow> ('k, 'v) dict" where
  "dict_set [] k v = [(k, v)]"
| "dict_set (e # d) k v = (if fst e = k then (k, v) # d else e # dict_set d k v)"

definition dict_get :: "('k, 'v) dict \<Rightarrow> 'k \<Rightarrow> py_error + 'v" where
  "dict_get d k = (case map_of d k of None \<Rightarrow> Inl KeyError | Some v \<Rightarrow> Inr v)"

text \<open>\<open>dict_add d (k, v)\<close> is \<^verbatim>\<open>if k not in d: d[k] = v else: d[k] += v\<close>.\<close>

definition dict_add :: "('k, int) dict \<Rightarrow> 'k \<times> int \<Rightarrow> ('k, int) dict" where
  "dict_add d e =
     (case map_of d (fst e) of
        None \<Rightarrow> dict_set d (fst e) (snd e)
      | Some u \<Rightarrow> dict_set d (fst e) (u + snd e))"

text \<open>
  \<^verbatim>\<open>rdd.reduceByKey(lambda x, y: x + y).collectAsMap()\<close> gives one entry per key, holding
  the sum of the values of that key. The order of the keys in the collected dictionary is
  decided by Spark (the partition of a key, the order inside a partition), not by the
  program. It is a parameter: a \<open>key_order\<close> gives, for the pairs of an RDD, the
  position of each key, and the entries are arranged by position. Every arrangement of
  the keys is the result of some \<open>key_order\<close>.
\<close>

type_synonym 'k key_order = "('k \<times> int) list \<Rightarrow> 'k \<Rightarrow> nat"

definition reduceByKey_collectAsMap ::
  "'k key_order \<Rightarrow> ('k \<times> int) list \<Rightarrow> ('k, int) dict" where
  "reduceByKey_collectAsMap ord pairs =
     sort_key (\<lambda>e. ord pairs (fst e)) (foldl dict_add [] pairs)"

text \<open>
  The key order in which every key has the same position: the keys stay in the order
  of their first occurrence.
\<close>

definition ord_first :: "int key_order" where
  "ord_first pairs k = 0"

subsection \<open>The global state\<close>

record state =
  D :: int
  W :: int
  left :: int
  right :: int
  K :: int
  portExp :: int
  streamLength :: "int \<times> int"
  histogram :: "(int, int) dict"
  approx_histogram :: "(int, npfloat) dict"
  a :: "int list"
  b :: "int list"
  sketch :: "int list list"
  stopping_condition :: bool

definition THRESHOLD :: int where
  "THRESHOLD = 10000000"

definition p :: int where
  "p = 8191"

subsection \<open>Hash functions\<close>

text \<open>
  In \<^verbatim>\<open>a*int(x) + b\<close> the parameters are NumPy 64-bit integers (elements of the arrays
  \<^verbatim>\<open>a\<close> and \<^verbatim>\<open>b\<close>) and \<^verbatim>\<open>int(x)\<close> is a Python integer. NumPy converts the Python
  integer to 64 bits and raises \<^verbatim>\<open>OverflowError\<close> when it does not fit; the product and
  the sum are 64-bit values and wrap around (with a warning, not an exception).
\<close>

definition int64_ok :: "int \<Rightarrow> bool" where
  "int64_ok v \<longleftrightarrow> - 9223372036854775808 \<le> v \<and> v < 9223372036854775808"

definition wrap64 :: "int \<Rightarrow> int" where
  "wrap64 v = (v + 9223372036854775808) mod 18446744073709551616 - 9223372036854775808"

definition affine64 :: "int \<Rightarrow> int \<Rightarrow> int \<Rightarrow> py_error + int" where
  "affine64 ha x hb =
     (if int64_ok x then Inr (wrap64 (wrap64 (ha * x) + hb)) else Inl OverflowError)"

text \<open>
  \<^verbatim>\<open>h_hash\<close> reads the global \<^verbatim>\<open>W\<close>. The remainder of a NumPy integer by zero is \<open>0\<close>
  (with a warning), not an exception. For a positive modulus the remainder is \<open>mod\<close>
  on \<open>int\<close>, also for a negative first operand.
\<close>

definition h_hash :: "state \<Rightarrow> int \<Rightarrow> int \<Rightarrow> int \<Rightarrow> py_error + int" where
  "h_hash st x ha hb =
     bind_err (affine64 ha x hb) (\<lambda>v.
       Inr (if W st = 0 then 0 else (v mod p) mod W st))"

definition g_hash :: "int \<Rightarrow> int \<Rightarrow> int \<Rightarrow> py_error + int" where
  "g_hash x ga gb =
     bind_err (affine64 ga x gb) (\<lambda>v.
       let hash_value = (v mod p) mod 2 in Inr (2 * hash_value - 1))"

subsection \<open>Initialisation (the start of the main block)\<close>

text \<open>
  \<^verbatim>\<open>np.random.randint(low, high, size = n)\<close> draws \<open>n\<close> values in \<open>[low, high)\<close>; the
  random source is a parameter, a function from the position of the draw to a raw value.
  A negative size raises \<^verbatim>\<open>ValueError\<close>, and so does \<^verbatim>\<open>np.zeros\<close> on a negative
  dimension.
\<close>

definition randint :: "(nat \<Rightarrow> int) \<Rightarrow> int \<Rightarrow> int \<Rightarrow> int \<Rightarrow> py_error + int list" where
  "randint src low high n =
     (if n < 0 then Inl ValueError
      else Inr (map (\<lambda>i. low + src i mod (high - low)) [0..<nat n]))"

definition np_zeros :: "int \<Rightarrow> int \<Rightarrow> py_error + int list list" where
  "np_zeros rows cols =
     (if rows < 0 \<or> cols < 0 then Inl ValueError
      else Inr (replicate (nat rows) (replicate (nat cols) 0)))"

text \<open>
  \<open>argv\<close> holds the arguments after the program's name, so the assertion
  \<^verbatim>\<open>len(sys.argv) == 7\<close> asks for six of them.
\<close>

definition init :: "int list \<Rightarrow> (nat \<Rightarrow> int) \<Rightarrow> (nat \<Rightarrow> int) \<Rightarrow> py_error + state" where
  "init argv src_a src_b =
     (if length argv + 1 \<noteq> 7 then Inl AssertionError
      else
        let d = argv ! 0; w = argv ! 1; l = argv ! 2; r = argv ! 3; k = argv ! 4;
            port = argv ! 5
        in bind_err (randint src_a 1 (p - 1) (d * 2)) (\<lambda>ra.
           bind_err (randint src_b 0 (p - 1) (d * 2)) (\<lambda>rb.
           bind_err (np_zeros d w) (\<lambda>sk.
             Inr \<lparr> D = d, W = w, left = l, right = r, K = k, portExp = port,
                   streamLength = (0, 0), histogram = [], approx_histogram = [],
                   a = ra, b = rb, sketch = sk, stopping_condition = False \<rparr>))))"

text \<open>Two fixed random sources for the examples.\<close>

definition src_zero :: "nat \<Rightarrow> int" where
  "src_zero i = 0"

definition src_alt :: "nat \<Rightarrow> int" where
  "src_alt i = int i"

subsection \<open>The Count Sketch update\<close>

text \<open>\<^verbatim>\<open>sketch[j, key] += v\<close> and \<^verbatim>\<open>sketch[j, key]\<close> on the two-dimensional array.\<close>

definition sketch_add :: "int list list \<Rightarrow> int \<Rightarrow> int \<Rightarrow> int \<Rightarrow> py_error + int list list" where
  "sketch_add sk j key v =
     bind_err (py_index (length sk) j) (\<lambda>r.
     bind_err (py_index (length (sk ! r)) key) (\<lambda>c.
       Inr (sk[r := (sk ! r)[c := sk ! r ! c + v]])))"

definition sketch_get :: "int list list \<Rightarrow> int \<Rightarrow> int \<Rightarrow> py_error + int" where
  "sketch_get sk j key =
     bind_err (py_index (length sk) j) (\<lambda>r.
     bind_err (py_index (length (sk ! r)) key) (\<lambda>c.
       Inr (sk ! r ! c)))"

text \<open>
  The pairs \<open>(hj(x), gj(x))\<close> of the items of the batch, the dictionary
  \<open>{hj: sum gj(x)}\<close> of row \<open>j\<close>, and the loop that adds it to the row. An exception
  raised by a hash function inside the Spark job ends the job; the model keeps the
  exception as the result.
\<close>

fun hash_pairs :: "state \<Rightarrow> int \<Rightarrow> int list \<Rightarrow> py_error + (int \<times> int) list" where
  "hash_pairs st j [] = Inr []"
| "hash_pairs st j (x # xs) =
     bind_err (h_hash st x (a st ! nat j) (b st ! nat j)) (\<lambda>h.
     bind_err (g_hash x (a st ! nat (j + D st)) (b st ! nat (j + D st))) (\<lambda>g.
     bind_err (hash_pairs st j xs) (\<lambda>rest.
       Inr ((h, g) # rest))))"

definition sketch_dict ::
  "int key_order \<Rightarrow> state \<Rightarrow> int \<Rightarrow> int list \<Rightarrow> py_error + (int, int) dict" where
  "sketch_dict ord st j f_batch =
     bind_err (hash_pairs st j f_batch) (\<lambda>pairs.
       Inr (reduceByKey_collectAsMap ord pairs))"

fun update_row :: "int list list \<Rightarrow> int \<Rightarrow> (int, int) dict \<Rightarrow> py_error + int list list" where
  "update_row sk j [] = Inr sk"
| "update_row sk j (e # es) =
     bind_err (sketch_add sk j (fst e) (snd e)) (\<lambda>sk'. update_row sk' j es)"

fun count_sketch_rows ::
  "int key_order \<Rightarrow> state \<Rightarrow> int list \<Rightarrow> int list \<Rightarrow> int list list
     \<Rightarrow> py_error + int list list" where
  "count_sketch_rows ord st f_batch [] sk = Inr sk"
| "count_sketch_rows ord st f_batch (j # js) sk =
     bind_err (sketch_dict ord st j f_batch) (\<lambda>d.
     bind_err (update_row sk j d) (\<lambda>sk'.
       count_sketch_rows ord st f_batch js sk'))"

definition count_sketch :: "int key_order \<Rightarrow> state \<Rightarrow> int list \<Rightarrow> py_error + state" where
  "count_sketch ord st f_batch =
     bind_err (count_sketch_rows ord st f_batch (np_arange 0 (D st)) (sketch st)) (\<lambda>sk.
       Inr (st\<lparr>sketch := sk\<rparr>))"

subsection \<open>Processing one batch\<close>

definition process_batch :: "int key_order \<Rightarrow> state \<Rightarrow> int list \<Rightarrow> py_error + state" where
  "process_batch ord st batch =
     (let batch_size = int (length batch) in
      if fst (streamLength st) \<ge> THRESHOLD then Inr st
      else
        let st1 = st\<lparr>streamLength :=
                     (fst (streamLength st) + batch_size, snd (streamLength st))\<rparr>;
            filtered_batch = filter (\<lambda>x. x \<ge> left st \<and> x \<le> right st) batch;
            st2 = st1\<lparr>streamLength :=
                      (fst (streamLength st1),
                       snd (streamLength st1) + int (length filtered_batch))\<rparr>;
            batch_items = reduceByKey_collectAsMap ord (map (\<lambda>s. (s, 1)) filtered_batch);
            st3 = st2\<lparr>histogram := foldl dict_add (histogram st2) batch_items\<rparr>
        in bind_err (count_sketch ord st3 filtered_batch) (\<lambda>st4.
             Inr (if fst (streamLength st4) \<ge> THRESHOLD
                  then st4\<lparr>stopping_condition := True\<rparr> else st4)))"

text \<open>The stream: batches are processed one after the other.\<close>

fun ingest :: "int key_order \<Rightarrow> state \<Rightarrow> int list list \<Rightarrow> py_error + state" where
  "ingest ord st [] = Inr st"
| "ingest ord st (batch # batches) =
     bind_err (process_batch ord st batch) (\<lambda>st'. ingest ord st' batches)"

subsection \<open>Floating-point values\<close>

text \<open>
  The operations the output computation applies to NumPy floats. \<^verbatim>\<open>nan\<close> is equal to
  nothing, itself included; a float divided by zero is an infinity or \<^verbatim>\<open>nan\<close>.
\<close>

definition np_eq :: "npfloat \<Rightarrow> npfloat \<Rightarrow> bool" where
  "np_eq x y = (x \<noteq> NaN \<and> x = y)"

fun np_add :: "npfloat \<Rightarrow> npfloat \<Rightarrow> npfloat" where
  "np_add (Fin x) (Fin y) = Fin (x + y)"
| "np_add NaN _ = NaN"
| "np_add _ NaN = NaN"
| "np_add PInf NInf = NaN"
| "np_add NInf PInf = NaN"
| "np_add PInf _ = PInf"
| "np_add _ PInf = PInf"
| "np_add NInf _ = NInf"
| "np_add _ NInf = NInf"

fun np_square :: "npfloat \<Rightarrow> npfloat" where
  "np_square (Fin x) = Fin (x * x)"
| "np_square NaN = NaN"
| "np_square _ = PInf"

text \<open>\<^verbatim>\<open>abs(t - x)\<close> for an integer \<open>t\<close> and a float \<open>x\<close>.\<close>

fun np_abs_diff :: "int \<Rightarrow> npfloat \<Rightarrow> npfloat" where
  "np_abs_diff t (Fin x) = Fin \<bar>of_int t - x\<bar>"
| "np_abs_diff t NaN = NaN"
| "np_abs_diff t _ = PInf"

text \<open>\<^verbatim>\<open>x / t\<close> for a float \<open>x\<close> and an integer \<open>t\<close>.\<close>

fun np_div_int :: "npfloat \<Rightarrow> int \<Rightarrow> npfloat" where
  "np_div_int (Fin x) t =
     (if t \<noteq> 0 then Fin (x / of_int t)
      else if x > 0 then PInf else if x < 0 then NInf else NaN)"
| "np_div_int NaN t = NaN"
| "np_div_int PInf t = (if t < 0 then NInf else PInf)"
| "np_div_int NInf t = (if t < 0 then PInf else NInf)"

text \<open>Python's \<^verbatim>\<open>sum\<close> over a list of floats, and \<^verbatim>\<open>np.mean\<close>.\<close>

definition py_sum :: "npfloat list \<Rightarrow> npfloat" where
  "py_sum xs = foldl np_add (Fin 0) xs"

definition np_mean :: "npfloat list \<Rightarrow> npfloat" where
  "np_mean xs = (if xs = [] then NaN else np_div_int (py_sum xs) (int (length xs)))"

text \<open>
  \<^verbatim>\<open>np.median\<close> of a list of finite values: \<^verbatim>\<open>nan\<close> for the empty list; otherwise,
  with \<open>index = n // 2\<close>, the mean of the slice \<open>[index, index + 1)\<close> of the sorted values
  when \<open>n\<close> is odd, and of the slice \<open>[index - 1, index + 1)\<close> when \<open>n\<close> is even.
\<close>

definition slice :: "'x list \<Rightarrow> nat \<Rightarrow> nat \<Rightarrow> 'x list" where
  "slice xs i j = take (j - i) (drop i xs)"

definition np_median :: "rat list \<Rightarrow> npfloat" where
  "np_median xs =
     (let n = length xs in
      if n = 0 then NaN
      else
        let part = sort xs; index = n div 2;
            mid = (if n mod 2 = 1 then slice part index (index + 1)
                   else slice part (index - 1) (index + 1))
        in Fin (sum_list mid / of_nat (length mid)))"

subsection \<open>The estimates of all distinct items (lines 224 to 228)\<close>

text \<open>
  In \<^verbatim>\<open>g_hash(...) * sketch[j, h_hash(...)]\<close> the sign is computed first, then the bucket,
  then the cell is read.
\<close>

fun approx_freq_list :: "state \<Rightarrow> int \<Rightarrow> int list \<Rightarrow> rat list \<Rightarrow> py_error + rat list" where
  "approx_freq_list st u [] acc = Inr acc"
| "approx_freq_list st u (j # js) acc =
     bind_err (g_hash u (a st ! nat (j + D st)) (b st ! nat (j + D st))) (\<lambda>g.
     bind_err (h_hash st u (a st ! nat j) (b st ! nat j)) (\<lambda>h.
     bind_err (sketch_get (sketch st) j h) (\<lambda>cell.
       approx_freq_list st u js (acc @ [of_int (g * cell)]))))"

definition estimate :: "state \<Rightarrow> int \<Rightarrow> py_error + npfloat" where
  "estimate st u =
     bind_err (approx_freq_list st u (np_arange 0 (D st)) []) (\<lambda>l. Inr (np_median l))"

fun approx_loop ::
  "state \<Rightarrow> int list \<Rightarrow> (int, npfloat) dict \<Rightarrow> py_error + (int, npfloat) dict" where
  "approx_loop st [] ah = Inr ah"
| "approx_loop st (u # us) ah =
     bind_err (estimate st u) (\<lambda>m. approx_loop st us (dict_set ah u m))"

definition compute_approx :: "state \<Rightarrow> py_error + state" where
  "compute_approx st =
     bind_err (approx_loop st (map fst (histogram st)) (approx_histogram st)) (\<lambda>ah.
       Inr (st\<lparr>approx_histogram := ah\<rparr>))"

subsection \<open>The output computation (lines 231 to 300)\<close>

text \<open>
  \<^verbatim>\<open>sorted(xs, key = f, reverse = True)\<close>: the list is reversed, sorted by a stable
  ascending sort, and reversed again.
\<close>

definition py_sorted_reverse :: "('x \<Rightarrow> int) \<Rightarrow> 'x list \<Rightarrow> 'x list" where
  "py_sorted_reverse f xs = rev (sort_key f (rev xs))"

definition desc_histogram :: "state \<Rightarrow> (int \<times> int) list" where
  "desc_histogram st = py_sorted_reverse snd (histogram st)"

text \<open>
  The local variables of the output computation. \<open>printed\<close> collects the
  \<^verbatim>\<open>Item ... Freq = ... Est. Freq = ...\<close> lines. \<^verbatim>\<open>true_freq\<close> and \<^verbatim>\<open>approx_freq\<close> are
  unbound until their first assignment; reading them before raises \<^verbatim>\<open>NameError\<close>.
\<close>

record locals =
  printed :: "(int \<times> int \<times> npfloat) list"
  avg_error_list :: "npfloat list"
  F2_list :: "int list \<times> npfloat list"
  true_freq :: "int option"
  approx_freq :: "npfloat option"
  count_var :: int

definition read_var :: "'x option \<Rightarrow> py_error + 'x" where
  "read_var v = (case v of None \<Rightarrow> Inl NameError | Some x \<Rightarrow> Inr x)"

text \<open>
  The branches \<^verbatim>\<open>K <= 20\<close> and \<^verbatim>\<open>K > 20\<close> run the same three loops; the first branch
  also prints a line for each item it takes. The flag \<open>pr\<close> tells the branch.
\<close>

definition take_item :: "bool \<Rightarrow> bool \<Rightarrow> int \<times> int \<Rightarrow> npfloat \<Rightarrow> locals \<Rightarrow> locals" where
  "take_item pr with_F2 e af r =
     r\<lparr> printed := (if pr then printed r @ [(fst e, snd e, af)] else printed r),
        avg_error_list := avg_error_list r @ [np_div_int (np_abs_diff (snd e) af) (snd e)],
        F2_list := (if with_F2
                    then (fst (F2_list r) @ [snd e ^ 2], snd (F2_list r) @ [np_square af])
                    else F2_list r),
        true_freq := Some (snd e),
        approx_freq := Some af \<rparr>"

text \<open>The loop \<^verbatim>\<open>for k in np.arange(0, K)\<close>.\<close>

fun top_loop ::
  "bool \<Rightarrow> (int \<times> int) list \<Rightarrow> (int, npfloat) dict \<Rightarrow> int list \<Rightarrow> locals \<Rightarrow> py_error + locals"
where
  "top_loop pr dh ah [] r = Inr r"
| "top_loop pr dh ah (k # ks) r =
     bind_err (py_get dh k) (\<lambda>e.
     bind_err (dict_get ah (fst e)) (\<lambda>af.
       top_loop pr dh ah ks (take_item pr True e af r)))"

text \<open>
  The loop \<^verbatim>\<open>while True\<close>. It ends by \<^verbatim>\<open>break\<close> or by an exception: each round
  reads \<^verbatim>\<open>desc_histogram[K-1+count]\<close> and then increases \<^verbatim>\<open>count\<close>.
\<close>

function tie_loop ::
  "bool \<Rightarrow> (int \<times> int) list \<Rightarrow> (int, npfloat) dict \<Rightarrow> int \<Rightarrow> locals \<Rightarrow> py_error + locals"
where
  "tie_loop pr dh ah k r =
     (case py_get dh (k - 1) of Inl err \<Rightarrow> Inl err | Inr e1 \<Rightarrow>
      case dict_get ah (fst e1) of Inl err \<Rightarrow> Inl err | Inr af1 \<Rightarrow>
      case py_get dh (k - 1 + count_var r) of Inl err \<Rightarrow> Inl err | Inr e2 \<Rightarrow>
      case dict_get ah (fst e2) of Inl err \<Rightarrow> Inl err | Inr af2 \<Rightarrow>
        if np_eq af1 af2 then
          let r' = r\<lparr>count_var := count_var r + 1\<rparr> in
          case py_get dh (k + count_var r') of Inl err \<Rightarrow> Inl err | Inr e \<Rightarrow>
          case dict_get ah (fst e) of Inl err \<Rightarrow> Inl err | Inr af \<Rightarrow>
            tie_loop pr dh ah k (take_item pr False e af r')
        else Inr r)"
  by pat_completeness auto
termination
  by (relation "measure (\<lambda>(pr, dh, ah, k, r). nat (int (length dh) - (k - 1 + count_var r)))")
     (auto simp: py_get_def py_index_def bind_err_def take_item_def split: if_splits)

text \<open>The loop \<^verbatim>\<open>for k in np.arange(K, len(histogram))\<close>, which does not read \<open>k\<close>.\<close>

fun rest_loop :: "int list \<Rightarrow> locals \<Rightarrow> py_error + locals" where
  "rest_loop [] r = Inr r"
| "rest_loop (k # ks) r =
     bind_err (read_var (true_freq r)) (\<lambda>tf.
     bind_err (read_var (approx_freq r)) (\<lambda>af.
       rest_loop ks
         (r\<lparr>F2_list := (fst (F2_list r) @ [tf ^ 2], snd (F2_list r) @ [np_square af])\<rparr>)))"

text \<open>
  The last \<^verbatim>\<open>print\<close>: \<^verbatim>\<open>sum(F2_list[0])/(streamLength[1]**2)\<close> divides two Python
  integers and raises \<^verbatim>\<open>ZeroDivisionError\<close> on zero; it is evaluated before the second
  quotient.
\<close>

definition print_F2 :: "int list \<times> npfloat list \<Rightarrow> int \<Rightarrow> py_error + rat \<times> npfloat" where
  "print_F2 F2 n =
     (if n ^ 2 = 0 then Inl ZeroDivisionError
      else Inr (of_int (sum_list (fst F2)) / of_int (n ^ 2),
                np_div_int (py_sum (snd F2)) (n ^ 2)))"

record report =
  total_items :: int
  total_items_R :: int
  distinct_items_R :: nat
  items :: "(int \<times> int \<times> npfloat) list"
  avg_err :: npfloat
  F2 :: rat
  F2_estimate :: npfloat

definition branch :: "bool \<Rightarrow> state \<Rightarrow> py_error + report" where
  "branch pr st =
     (let r0 = \<lparr> printed = [], avg_error_list = [], F2_list = ([], []),
                 true_freq = None, approx_freq = None, count_var = 1 \<rparr>
      in bind_err (top_loop pr (desc_histogram st) (approx_histogram st)
                     (np_arange 0 (K st)) r0) (\<lambda>r1.
         bind_err (tie_loop pr (desc_histogram st) (approx_histogram st) (K st) r1) (\<lambda>r2.
         bind_err (rest_loop (np_arange (K st) (int (length (histogram st)))) r2) (\<lambda>r3.
         bind_err (print_F2 (F2_list r3) (snd (streamLength st))) (\<lambda>f.
           Inr \<lparr> total_items = fst (streamLength st),
                 total_items_R = snd (streamLength st),
                 distinct_items_R = length (histogram st),
                 items = printed r3,
                 avg_err = np_mean (avg_error_list r3),
                 F2 = fst f, F2_estimate = snd f \<rparr>)))))"

definition statistics :: "state \<Rightarrow> py_error + report" where
  "statistics st = (if K st \<le> 20 then branch True st else branch False st)"

text \<open>The whole output section: the estimates first, then the statistics.\<close>

definition outputs :: "state \<Rightarrow> py_error + report" where
  "outputs st = bind_err (compute_approx st) statistics"

text \<open>
  The state that the output section leaves, with the report. The statistics computation
  (lines 231 to 300) assigns only its own variables, those of the record \<open>locals\<close>; the
  state after it is the state after the estimates.
\<close>

definition output_section :: "state \<Rightarrow> py_error + state \<times> report" where
  "output_section st =
     bind_err (compute_approx st) (\<lambda>st1.
     bind_err (statistics st1) (\<lambda>rep.
       Inr (st1, rep)))"

text \<open>
  The main block: initialisation and the stream (\<open>run\<close>), and the output section once
  the stopping condition is set. On a stream that ends before the threshold the main
  thread keeps waiting and nothing is reported: the value is \<open>None\<close>.
\<close>

definition run ::
  "int key_order \<Rightarrow> int list \<Rightarrow> (nat \<Rightarrow> int) \<Rightarrow> (nat \<Rightarrow> int) \<Rightarrow> int list list
     \<Rightarrow> py_error + state"
where
  "run ord argv src_a src_b batches =
     bind_err (init argv src_a src_b) (\<lambda>st. ingest ord st batches)"

definition main ::
  "int key_order \<Rightarrow> int list \<Rightarrow> (nat \<Rightarrow> int) \<Rightarrow> (nat \<Rightarrow> int) \<Rightarrow> int list list
     \<Rightarrow> (py_error + report) option"
where
  "main ord argv src_a src_b batches =
     (case run ord argv src_a src_b batches of
        Inl err \<Rightarrow> Some (Inl err)
      | Inr st \<Rightarrow> if stopping_condition st then Some (outputs st) else None)"

section \<open>The operations as the specification words them\<close>

text \<open>
  \<open>BucketHash(item, row)\<close> and \<open>SignHash(item, row)\<close> are the program's two hash
  functions with the parameters of the row. \<open>Update(item, weight)\<close> adds, for every row,
  \<open>SignHash(item, row) * weight\<close> to the cell of the column \<open>BucketHash(item, row)\<close>. The
  estimate is the median of the row values \<open>SignHash(item, row) * cell[row, BucketHash(item,
  row)]\<close>: the middle one of the sorted values for an odd number of rows, the mean of the
  two middle ones for an even number. These definitions are compared with the code below.
\<close>

definition spec_BucketHash :: "state \<Rightarrow> int \<Rightarrow> nat \<Rightarrow> py_error + int" where
  "spec_BucketHash st item row = h_hash st item (a st ! row) (b st ! row)"

definition spec_SignHash :: "state \<Rightarrow> int \<Rightarrow> nat \<Rightarrow> py_error + int" where
  "spec_SignHash st item row =
     g_hash item (a st ! (row + nat (D st))) (b st ! (row + nat (D st)))"

fun spec_Update_rows ::
  "state \<Rightarrow> int \<times> int \<Rightarrow> nat list \<Rightarrow> int list list \<Rightarrow> py_error + int list list" where
  "spec_Update_rows st e [] cells = Inr cells"
| "spec_Update_rows st e (row # rows) cells =
     bind_err (spec_BucketHash st (fst e) row) (\<lambda>col.
     bind_err (spec_SignHash st (fst e) row) (\<lambda>sign.
       spec_Update_rows st e rows
         (cells[row := (cells ! row)[nat col := cells ! row ! nat col + sign * snd e]])))"

definition spec_Update ::
  "state \<Rightarrow> int \<times> int \<Rightarrow> int list list \<Rightarrow> py_error + int list list" where
  "spec_Update st e cells = spec_Update_rows st e [0..<nat (D st)] cells"

fun spec_Updates ::
  "state \<Rightarrow> (int \<times> int) list \<Rightarrow> int list list \<Rightarrow> py_error + int list list" where
  "spec_Updates st [] cells = Inr cells"
| "spec_Updates st (e # es) cells =
     bind_err (spec_Update st e cells) (\<lambda>cells'. spec_Updates st es cells')"





section \<open>Invariants and auxiliary notions\<close>

text \<open>
  The shape of the state after an initialisation with \<open>D \<ge> 0\<close> and \<open>W > 0\<close>: two
  parameter arrays of \<open>2 D\<close> entries and a sketch of \<open>D\<close> rows of \<open>W\<close> cells.
\<close>

definition wf_state :: "state \<Rightarrow> bool" where
  "wf_state st \<longleftrightarrow>
     0 \<le> D st \<and> 0 < W st \<and>
     length (a st) = nat (2 * D st) \<and> length (b st) = nat (2 * D st) \<and>
     length (sketch st) = nat (D st) \<and>
     (\<forall>row \<in> set (sketch st). length row = nat (W st))"

text \<open>
  The histogram and the count of admitted items agree: the count is the sum of the
  frequencies, and every frequency is positive.
\<close>

definition counts_agree :: "state \<Rightarrow> bool" where
  "counts_agree st \<longleftrightarrow>
     snd (streamLength st) = sum_list (map snd (histogram st)) \<and>
     (\<forall>e \<in> set (histogram st). 0 < snd e)"

text \<open>Every item of the histogram fits in 64 bits.\<close>

definition items_fit :: "state \<Rightarrow> bool" where
  "items_fit st \<longleftrightarrow> (\<forall>e \<in> set (histogram st). int64_ok (fst e))"

text \<open>The items of a batch that lie in the interval \<open>[left, right]\<close>.\<close>

definition admitted :: "state \<Rightarrow> int list \<Rightarrow> int list" where
  "admitted st batch = filter (\<lambda>x. left st \<le> x \<and> x \<le> right st) batch"


text \<open>The sum of the values of a dictionary, each weighted by a function of its key.\<close>

definition wsum :: "('k \<Rightarrow> int) \<Rightarrow> ('k \<times> int) list \<Rightarrow> int" where
  "wsum F es = sum_list (map (\<lambda>e. F (fst e) * snd e) es)"

text \<open>
  The bucket and the sign that the hash functions give, in a row, to an item that fits
  in 64 bits; what a list of weighted items adds to the cell \<open>(i, c)\<close> of the sketch; and
  the sketch with these additions in every cell.
\<close>

definition bucket_of :: "state \<Rightarrow> int \<Rightarrow> nat \<Rightarrow> nat" where
  "bucket_of st x i = nat ((wrap64 (wrap64 (a st ! i * x) + b st ! i) mod p) mod W st)"

definition sign_of :: "state \<Rightarrow> int \<Rightarrow> nat \<Rightarrow> int" where
  "sign_of st x i =
     2 * ((wrap64 (wrap64 (a st ! (i + nat (D st)) * x) + b st ! (i + nat (D st))) mod p)
            mod 2) - 1"

definition contrib :: "state \<Rightarrow> nat \<Rightarrow> nat \<Rightarrow> (int \<times> int) list \<Rightarrow> int" where
  "contrib st i c es = wsum (\<lambda>x. if bucket_of st x i = c then sign_of st x i else 0) es"

definition sketch_plus :: "state \<Rightarrow> (int \<times> int) list \<Rightarrow> int list list \<Rightarrow> int list list" where
  "sketch_plus st es cells =
     map (\<lambda>i. map (\<lambda>c. cells ! i ! c + contrib st i c es) [0..<nat (W st)])
       [0..<nat (D st)]"


text \<open>A small initialised state for the examples: one row, two buckets.\<close>

definition ex_state :: state where
  "ex_state = \<lparr> D = 1, W = 2, left = 0, right = 9, K = 1, portExp = 8888,
                 streamLength = (0, 0), histogram = [], approx_histogram = [],
                 a = [1, 2], b = [0, 1], sketch = [[0, 0]], stopping_condition = False \<rparr>"

text \<open>The same run after a first batch with the admitted items \<open>1, 2, 1\<close>.\<close>

definition ex_mid :: state where
  "ex_mid = ex_state\<lparr> streamLength := (3, 3), histogram := [(1, 2), (2, 1)],
                       sketch := [[1, 2]] \<rparr>"

text \<open>The same configuration after a stream that has reached the threshold.\<close>

definition ex_done :: state where
  "ex_done = ex_state\<lparr> streamLength := (10000000, 3), histogram := [(1, 2), (2, 1)],
                        sketch := [[1, 2]], stopping_condition := True \<rparr>"


section \<open>Properties\<close>

subsection \<open>Sequencing, dictionaries and weighted sums\<close>

lemma bind_err_Inr [simp]: "bind_err (Inr v) f = f v"
  by (simp add: bind_err_def)

lemma bind_err_Inl [simp]: "bind_err (Inl e) f = Inl e"
  by (simp add: bind_err_def)

lemma map_of_dict_set: "map_of (dict_set d k v) = (map_of d)(k \<mapsto> v)"
  by (induction d) (auto simp: fun_eq_iff)

lemma keys_dict_set: "fst ` set (dict_set d k v) = insert k (fst ` set d)"
  by (induction d) auto

lemma wsum_Nil [simp]: "wsum F [] = 0"
  by (simp add: wsum_def)

lemma wsum_Cons [simp]: "wsum F (e # es) = F (fst e) * snd e + wsum F es"
  by (simp add: wsum_def)

lemma wsum_append [simp]: "wsum F (xs @ ys) = wsum F xs + wsum F ys"
  by (simp add: wsum_def)

lemma wsum_dict_set:
  "wsum F (dict_set d k v) =
     wsum F d + F k * (v - (case map_of d k of None \<Rightarrow> 0 | Some u \<Rightarrow> u))"
  by (induction d) (auto simp: algebra_simps)

lemma wsum_dict_add: "wsum F (dict_add d e) = wsum F d + F (fst e) * snd e"
  by (simp add: dict_add_def wsum_dict_set algebra_simps split: option.splits)

lemma wsum_foldl_dict_add: "wsum F (foldl dict_add d es) = wsum F d + wsum F es"
  by (induction es arbitrary: d) (simp_all add: wsum_dict_add)

lemma wsum_mset:
  assumes "mset xs = mset ys"
  shows "wsum F xs = wsum F ys"
proof -
  have "sum_mset (image_mset (\<lambda>e. F (fst e) * snd e) (mset xs))
          = sum_mset (image_mset (\<lambda>e. F (fst e) * snd e) (mset ys))"
    by (simp only: assms)
  then show ?thesis
    by (simp only: wsum_def mset_map [symmetric] sum_mset_sum_list)
qed

lemma wsum_sort_key: "wsum F (sort_key f es) = wsum F es"
  by (rule wsum_mset) simp

lemma wsum_reduceByKey: "wsum F (reduceByKey_collectAsMap ord pairs) = wsum F pairs"
  by (simp add: reduceByKey_collectAsMap_def wsum_sort_key wsum_foldl_dict_add)

lemma keys_dict_add: "fst ` set (dict_add d e) = insert (fst e) (fst ` set d)"
  by (simp add: dict_add_def keys_dict_set split: option.splits)

lemma keys_foldl_dict_add: "fst ` set (foldl dict_add d es) = fst ` set d \<union> fst ` set es"
  by (induction es arbitrary: d) (auto simp: keys_dict_add)

lemma keys_reduceByKey: "fst ` set (reduceByKey_collectAsMap ord pairs) = fst ` set pairs"
  by (simp add: reduceByKey_collectAsMap_def keys_foldl_dict_add)

lemma reduceByKey_ord_first [simp]:
  "reduceByKey_collectAsMap ord_first pairs = foldl dict_add [] pairs"
  by (simp add: reduceByKey_collectAsMap_def ord_first_def sort_key_const)

lemma map_of_dict_add:
  "map_of (dict_add d e) k =
     (if k = fst e then Some ((case map_of d k of None \<Rightarrow> 0 | Some u \<Rightarrow> u) + snd e)
      else map_of d k)"
  by (simp add: dict_add_def map_of_dict_set split: option.splits)

lemma wsum_indicator_absent:
  "k \<notin> fst ` set es \<Longrightarrow> wsum (\<lambda>x. if x = k then 1 else 0) es = 0"
  by (induction es) auto

lemma map_of_foldl_dict_add:
  "map_of (foldl dict_add d es) k =
     (if k \<in> fst ` set es
      then Some ((case map_of d k of None \<Rightarrow> 0 | Some u \<Rightarrow> u)
                  + wsum (\<lambda>x. if x = k then 1 else 0) es)
      else map_of d k)"
proof (induction es arbitrary: d)
  case Nil
  show ?case by simp
next
  case (Cons e es)
  show ?case
    by (simp add: Cons.IH map_of_dict_add wsum_indicator_absent split: option.splits)
qed

lemma py_index_in_range: "0 \<le> i \<Longrightarrow> i < int n \<Longrightarrow> py_index n i = Inr (nat i)"
  by (simp add: py_index_def)

lemma sketch_add_in_range:
  assumes "0 \<le> j" "nat j < length sk" "0 \<le> key" "nat key < length (sk ! nat j)"
  shows "sketch_add sk j key v =
           Inr (sk[nat j := (sk ! nat j)[nat key := sk ! nat j ! nat key + v]])"
  using assms by (simp add: sketch_add_def py_index_in_range)

lemma update_row_closed:
  assumes "0 \<le> j" "nat j < length sk"
    and "\<forall>e \<in> set es. 0 \<le> fst e \<and> nat (fst e) < length (sk ! nat j)"
  shows "update_row sk j es =
           Inr (sk[nat j := map (\<lambda>c. sk ! nat j ! c + wsum (\<lambda>x. if nat x = c then 1 else 0) es)
                              [0..<length (sk ! nat j)]])"
  using assms
proof (induction es arbitrary: sk)
  case Nil
  have "map (\<lambda>c. sk ! nat j ! c) [0..<length (sk ! nat j)] = sk ! nat j"
    by (rule map_nth)
  then show ?case by simp
next
  case (Cons e es)
  let ?r = "nat j"
  let ?row' = "(sk ! ?r)[nat (fst e) := sk ! ?r ! nat (fst e) + snd e]"
  let ?sk' = "sk[?r := ?row']"
  have step: "sketch_add sk j (fst e) (snd e) = Inr ?sk'"
    using Cons.prems by (simp add: sketch_add_in_range)
  have row': "?sk' ! ?r = ?row'"
    using Cons.prems by simp
  have len: "length (?sk' ! ?r) = length (sk ! ?r)"
    using row' by simp
  have ih: "update_row ?sk' j es =
              Inr (?sk'[?r := map (\<lambda>c. ?sk' ! ?r ! c + wsum (\<lambda>x. if nat x = c then 1 else 0) es)
                                [0..<length (?sk' ! ?r)]])"
    using Cons.prems by (intro Cons.IH) (simp_all del: nth_list_update_eq add: row')
  have rows: "map (\<lambda>c. ?row' ! c + wsum (\<lambda>x. if nat x = c then 1 else 0) es)
                [0..<length (sk ! ?r)]
            = map (\<lambda>c. sk ! ?r ! c + wsum (\<lambda>x. if nat x = c then 1 else 0) (e # es))
                [0..<length (sk ! ?r)]"
    by (rule map_cong) (auto simp: nth_list_update)
  show ?case
    using step ih rows by (simp add: row' len del: nth_list_update_eq)
qed



subsection \<open>The hash functions on items that fit in 64 bits\<close>

lemma wrap64_id: "int64_ok v \<Longrightarrow> wrap64 v = v"
  by (simp add: int64_ok_def wrap64_def)

lemma affine64_ok: "int64_ok x \<Longrightarrow> affine64 ha x hb = Inr (wrap64 (wrap64 (ha * x) + hb))"
  by (simp add: affine64_def)

lemma affine64_overflow: "\<not> int64_ok x \<Longrightarrow> affine64 ha x hb = Inl OverflowError"
  by (simp add: affine64_def)

lemma h_hash_ok:
  assumes "int64_ok x" "0 < W st"
  shows "h_hash st x (a st ! i) (b st ! i) = Inr (int (bucket_of st x i))"
  using assms by (simp add: h_hash_def affine64_ok bucket_of_def)

lemma g_hash_ok:
  assumes "int64_ok x"
  shows "g_hash x (a st ! (i + nat (D st))) (b st ! (i + nat (D st))) = Inr (sign_of st x i)"
  using assms by (simp add: g_hash_def affine64_ok sign_of_def)

lemma hash_overflow:
  assumes "\<not> int64_ok x"
  shows "h_hash st x ha hb = Inl OverflowError" "g_hash x ga gb = Inl OverflowError"
  using assms by (simp_all add: h_hash_def g_hash_def affine64_overflow)

lemma bucket_of_less: "0 < W st \<Longrightarrow> bucket_of st x i < nat (W st)"
  by (simp add: bucket_of_def nat_less_iff)

text \<open>
  Where the product and the sum stay within 64 bits the hash functions compute what the
  formulas say on unbounded integers.
\<close>

lemma hashes_without_overflow:
  assumes "int64_ok x" "int64_ok (ha * x)" "int64_ok (ha * x + hb)" "W st \<noteq> 0"
  shows "h_hash st x ha hb = Inr (((ha * x + hb) mod p) mod W st)"
    and "g_hash x ha hb = Inr (2 * (((ha * x + hb) mod p) mod 2) - 1)"
  using assms by (simp_all add: h_hash_def g_hash_def affine64_ok wrap64_id)

lemma hash_pairs_ok:
  assumes "\<forall>x \<in> set xs. int64_ok x" "0 < W st" "0 \<le> D st" "0 \<le> j"
  shows "hash_pairs st j xs =
           Inr (map (\<lambda>x. (int (bucket_of st x (nat j)), sign_of st x (nat j))) xs)"
  using assms(1)
proof (induction xs)
  case Nil
  show ?case by simp
next
  case (Cons x xs)
  have x: "int64_ok x" using Cons.prems by simp
  have g: "g_hash x (a st ! nat (j + D st)) (b st ! nat (j + D st)) = Inr (sign_of st x (nat j))"
    using g_hash_ok [OF x, of st "nat j"] assms(3,4) by (simp add: nat_add_distrib)
  have "\<forall>x \<in> set xs. int64_ok x" using Cons.prems by simp
  then show ?case
    by (simp add: h_hash_ok [OF x assms(2)] g Cons.IH)
qed

lemma hash_pairs_overflow:
  assumes "\<exists>x \<in> set xs. \<not> int64_ok x"
  shows "hash_pairs st j xs = Inl OverflowError"
  using assms
proof (induction xs)
  case Nil
  then show ?case by simp
next
  case (Cons x xs)
  show ?case
  proof (cases "int64_ok x")
    case False
    then show ?thesis by (simp add: hash_overflow)
  next
    case True
    then have "\<exists>x \<in> set xs. \<not> int64_ok x" using Cons.prems by auto
    then have rest: "hash_pairs st j xs = Inl OverflowError" by (rule Cons.IH)
    obtain h g where "h_hash st x (a st ! nat j) (b st ! nat j) = Inr h"
        "g_hash x (a st ! nat (j + D st)) (b st ! nat (j + D st)) = Inr g"
      using True by (simp add: h_hash_def g_hash_def affine64_ok Let_def)
    then show ?thesis by (simp add: rest)
  qed
qed

lemma wsum_map:
  "wsum F (map f xs) = sum_list (map (\<lambda>x. F (fst (f x)) * snd (f x)) xs)"
  by (simp add: wsum_def comp_def)

lemma sketch_dict_ok:
  assumes "\<forall>x \<in> set batch. int64_ok x" "0 < W st" "0 \<le> D st" "0 \<le> j"
  shows "\<exists>d. sketch_dict ord st j batch = Inr d \<and>
           (\<forall>e \<in> set d. 0 \<le> fst e \<and> nat (fst e) < nat (W st)) \<and>
           (\<forall>c. wsum (\<lambda>x. if nat x = c then 1 else 0) d
                  = contrib st (nat j) c (map (\<lambda>x. (x, 1)) batch))"
proof -
  let ?pairs = "map (\<lambda>x. (int (bucket_of st x (nat j)), sign_of st x (nat j))) batch"
  let ?d = "reduceByKey_collectAsMap ord ?pairs"
  have d: "sketch_dict ord st j batch = Inr ?d"
    by (simp add: sketch_dict_def hash_pairs_ok [OF assms])
  have keys: "\<forall>e \<in> set ?d. 0 \<le> fst e \<and> nat (fst e) < nat (W st)"
  proof
    fix e assume "e \<in> set ?d"
    then have "fst e \<in> fst ` set ?d" by (rule imageI)
    then obtain x where "fst e = int (bucket_of st x (nat j))"
      by (auto simp: keys_reduceByKey image_image)
    then show "0 \<le> fst e \<and> nat (fst e) < nat (W st)"
      using bucket_of_less [OF assms(2), of x "nat j"] by simp
  qed
  have sums: "wsum (\<lambda>x. if nat x = c then 1 else 0) ?d
                = contrib st (nat j) c (map (\<lambda>x. (x, 1)) batch)" for c
  proof -
    have "wsum (\<lambda>x. if nat x = c then 1 else 0) ?d
            = sum_list (map (\<lambda>x. (if bucket_of st x (nat j) = c then 1 else 0)
                                   * sign_of st x (nat j)) batch)"
      by (simp add: wsum_reduceByKey wsum_map)
    also have "\<dots> = contrib st (nat j) c (map (\<lambda>x. (x, 1)) batch)"
      by (simp add: contrib_def wsum_map) (rule arg_cong [where f = sum_list], auto)
    finally show ?thesis .
  qed
  show ?thesis using d keys sums by blast
qed

subsection \<open>The rows of the sketch after a batch\<close>

lemma count_sketch_rows_char:
  assumes "distinct js" "\<forall>j \<in> set js. 0 \<le> j \<and> j < D st" "0 < W st"
    and "length sk = nat (D st)" "\<forall>row \<in> set sk. length row = nat (W st)"
    and ok: "\<forall>x \<in> set batch. int64_ok x"
  shows "\<exists>sk'. count_sketch_rows ord st batch js sk = Inr sk' \<and> length sk' = length sk \<and>
           (\<forall>i < length sk. sk' ! i =
              (if int i \<in> set js
               then map (\<lambda>c. sk ! i ! c + contrib st i c (map (\<lambda>x. (x, 1)) batch))
                      [0..<nat (W st)]
               else sk ! i))"
  using assms
proof (induction js arbitrary: sk)
  case Nil
  then show ?case by simp
next
  case (Cons j js)
  let ?r = "nat j"
  let ?row = "map (\<lambda>c. sk ! ?r ! c + contrib st ?r c (map (\<lambda>x. (x, 1)) batch))
                [0..<nat (W st)]"
  let ?sk1 = "sk[?r := ?row]"
  have j: "0 \<le> j" "j < D st" "j \<notin> set js"
    using Cons.prems by auto
  then have r: "?r < length sk" and D0: "0 \<le> D st"
    using Cons.prems by auto
  have lenr: "length (sk ! ?r) = nat (W st)"
    using Cons.prems r by simp
  from sketch_dict_ok [OF ok Cons.prems(3) D0 j(1), of ord]
  obtain d where d: "sketch_dict ord st j batch = Inr d"
      and keys: "\<forall>e \<in> set d. 0 \<le> fst e \<and> nat (fst e) < nat (W st)"
      and sums: "\<And>c. wsum (\<lambda>x. if nat x = c then 1 else 0) d
                        = contrib st ?r c (map (\<lambda>x. (x, 1)) batch)"
    by blast
  have keys': "\<forall>e \<in> set d. 0 \<le> fst e \<and> nat (fst e) < length (sk ! ?r)"
    using keys lenr by simp
  have step: "update_row sk j d = Inr ?sk1"
    using update_row_closed [OF j(1) r keys'] by (simp add: lenr sums)
  have shape1: "length ?sk1 = nat (D st)" "\<forall>row \<in> set ?sk1. length row = nat (W st)"
    using Cons.prems by (auto dest!: subsetD [OF set_update_subset_insert])
  from Cons.IH [of ?sk1] Cons.prems(1,2,3) shape1 ok
  obtain sk' where sk': "count_sketch_rows ord st batch js ?sk1 = Inr sk'"
      "length sk' = length ?sk1"
      "\<forall>i < length ?sk1. sk' ! i =
          (if int i \<in> set js
           then map (\<lambda>c. ?sk1 ! i ! c + contrib st i c (map (\<lambda>x. (x, 1)) batch))
                  [0..<nat (W st)]
           else ?sk1 ! i)"
    by auto
  have "\<forall>i < length sk. sk' ! i =
          (if int i \<in> set (j # js)
           then map (\<lambda>c. sk ! i ! c + contrib st i c (map (\<lambda>x. (x, 1)) batch))
                  [0..<nat (W st)]
           else sk ! i)"
  proof (intro allI impI)
    fix i assume i: "i < length sk"
    show "sk' ! i =
          (if int i \<in> set (j # js)
           then map (\<lambda>c. sk ! i ! c + contrib st i c (map (\<lambda>x. (x, 1)) batch))
                  [0..<nat (W st)]
           else sk ! i)"
    proof (cases "i = ?r")
      case True
      then have "int i = j" using j(1) by simp
      then have "int i \<notin> set js" using j(3) by simp
      then have "sk' ! i = ?sk1 ! i" using sk'(3) i by simp
      then show ?thesis using True r \<open>int i = j\<close> by simp
    next
      case False
      then have "int i \<noteq> j" by auto
      moreover have "?sk1 ! i = sk ! i" using False by simp
      ultimately show ?thesis using sk'(3) i by simp
    qed
  qed
  then show ?case
    using d step sk'(1,2) by simp
qed

lemma count_sketch_rows_all:
  assumes "0 \<le> D st" "0 < W st" "length sk = nat (D st)"
    and "\<forall>row \<in> set sk. length row = nat (W st)"
    and "\<forall>x \<in> set batch. int64_ok x"
  shows "count_sketch_rows ord st batch (np_arange 0 (D st)) sk
           = Inr (sketch_plus st (map (\<lambda>x. (x, 1)) batch) sk)"
proof -
  have "distinct (np_arange 0 (D st))" "\<forall>j \<in> set (np_arange 0 (D st)). 0 \<le> j \<and> j < D st"
    by (auto simp: np_arange_def)
  from count_sketch_rows_char [OF this assms(2,3,4,5), of ord]
  obtain sk' where sk': "count_sketch_rows ord st batch (np_arange 0 (D st)) sk = Inr sk'"
      "length sk' = length sk"
      "\<forall>i < length sk. sk' ! i =
          (if int i \<in> set (np_arange 0 (D st))
           then map (\<lambda>c. sk ! i ! c + contrib st i c (map (\<lambda>x. (x, 1)) batch))
                  [0..<nat (W st)]
           else sk ! i)"
    by auto
  have "sk' = sketch_plus st (map (\<lambda>x. (x, 1)) batch) sk"
  proof (rule nth_equalityI)
    show "length sk' = length (sketch_plus st (map (\<lambda>x. (x, 1)) batch) sk)"
      using sk'(2) assms(3) by (simp add: sketch_plus_def)
  next
    fix i assume "i < length sk'"
    then have i: "i < nat (D st)" using sk'(2) assms(3) by simp
    then have "int i \<in> set (np_arange 0 (D st))"
      by (auto simp: np_arange_def)
    then show "sk' ! i = sketch_plus st (map (\<lambda>x. (x, 1)) batch) sk ! i"
      using sk'(3) i assms(3) by (simp add: sketch_plus_def)
  qed
  then show ?thesis using sk'(1) by simp
qed

lemma count_sketch_ok:
  assumes "wf_state st" "\<forall>x \<in> set batch. int64_ok x"
  shows "count_sketch ord st batch
           = Inr (st\<lparr>sketch := sketch_plus st (map (\<lambda>x. (x, 1)) batch) (sketch st)\<rparr>)"
  using assms by (simp add: count_sketch_def wf_state_def count_sketch_rows_all)

lemma count_sketch_overflow:
  assumes "0 < D st" "\<exists>x \<in> set batch. \<not> int64_ok x"
  shows "count_sketch ord st batch = Inl OverflowError"
proof -
  have "np_arange 0 (D st) = 0 # [1..D st - 1]"
    using assms(1) by (simp add: np_arange_def upto_rec1)
  then show ?thesis
    by (simp add: count_sketch_def sketch_dict_def hash_pairs_overflow [OF assms(2)])
qed

lemma count_sketch_no_rows:
  assumes "D st = 0"
  shows "count_sketch ord st batch = Inr (st\<lparr>sketch := sketch st\<rparr>)"
  using assms by (simp add: count_sketch_def np_arange_def)

subsection \<open>The sketch after a batch, cell by cell\<close>

lemma contrib_Nil [simp]: "contrib st i c [] = 0"
  by (simp add: contrib_def)




lemma contrib_reduceByKey:
  "contrib st i c (reduceByKey_collectAsMap ord pairs) = contrib st i c pairs"
  by (simp add: contrib_def wsum_reduceByKey)













lemma same_hashes:
  assumes "a st' = a st" "b st' = b st" "W st' = W st" "D st' = D st"
  shows "bucket_of st' = bucket_of st" "sign_of st' = sign_of st"
    "contrib st' = contrib st" "sketch_plus st' = sketch_plus st"
    "spec_Updates st' = spec_Updates st"
proof -
  show h: "bucket_of st' = bucket_of st"
    using assms by (simp add: fun_eq_iff bucket_of_def)
  show g: "sign_of st' = sign_of st"
    using assms by (simp add: fun_eq_iff sign_of_def)
  show c: "contrib st' = contrib st"
    by (simp add: fun_eq_iff contrib_def h g cong: if_cong)
  show "sketch_plus st' = sketch_plus st"
    using assms by (simp add: fun_eq_iff sketch_plus_def c)
  have bh: "spec_BucketHash st' = spec_BucketHash st"
    using assms by (simp add: fun_eq_iff spec_BucketHash_def h_hash_def cong: if_cong)
  have sh: "spec_SignHash st' = spec_SignHash st"
    using assms by (simp add: fun_eq_iff spec_SignHash_def)
  have rows: "spec_Update_rows st' e rows cells = spec_Update_rows st e rows cells"
    for e rows cells
    by (induction rows arbitrary: cells) (simp_all add: bh sh)
  have upd: "spec_Update st' = spec_Update st"
    using assms(4) by (simp add: fun_eq_iff spec_Update_def rows)
  have "spec_Updates st' es cells = spec_Updates st es cells" for es cells
    by (induction es arbitrary: cells) (simp_all add: upd bind_err_def split: sum.splits)
  then show "spec_Updates st' = spec_Updates st"
    by (simp add: fun_eq_iff)
qed

lemma sketch_plus_state [simp]:
  "sketch_plus (st\<lparr>sketch := sk\<rparr>) = sketch_plus st"
  by (rule same_hashes) simp_all


subsection \<open>Additive accumulation\<close>





lemma sketch_plus_no_rows:
  assumes "D st = 0" "length cells = nat (D st)"
  shows "sketch_plus st es cells = cells"
  using assms by (simp add: sketch_plus_def)

lemma count_sketch_result:
  assumes "wf_state st"
  shows "count_sketch ord st batch =
           (if D st = 0 \<or> (\<forall>x \<in> set batch. int64_ok x)
            then Inr (st\<lparr>sketch := sketch_plus st (map (\<lambda>x. (x, 1)) batch) (sketch st)\<rparr>)
            else Inl OverflowError)"
proof (cases "D st = 0")
  case True
  then have "sketch_plus st (map (\<lambda>x. (x, 1)) batch) (sketch st) = sketch st"
    using assms by (intro sketch_plus_no_rows) (simp_all add: wf_state_def)
  then show ?thesis using True by (simp add: count_sketch_no_rows)
next
  case False
  then have D: "0 < D st" using assms by (simp add: wf_state_def)
  show ?thesis
  proof (cases "\<forall>x \<in> set batch. int64_ok x")
    case True
    then show ?thesis using assms by (simp add: count_sketch_ok)
  next
    case False
    then have "\<exists>x \<in> set batch. \<not> int64_ok x" by simp
    then show ?thesis using D False by (simp add: count_sketch_overflow)
  qed
qed




subsection \<open>One batch, in closed form\<close>

lemma wsum_indicator_count:
  "wsum (\<lambda>x. if x = k then 1 else 0) (map (\<lambda>x. (x, 1)) xs) = int (count_list xs k)"
  by (induction xs) auto

lemma process_batch_done:
  "THRESHOLD \<le> fst (streamLength st) \<Longrightarrow> process_batch ord st batch = Inr st"
  by (simp add: process_batch_def)

lemma process_batch_result:
  assumes "wf_state st" "fst (streamLength st) < THRESHOLD"
  shows "process_batch ord st batch =
           (if D st = 0 \<or> (\<forall>x \<in> set (admitted st batch). int64_ok x)
            then Inr (st\<lparr> streamLength :=
                      (fst (streamLength st) + int (length batch),
                       snd (streamLength st) + int (length (admitted st batch))),
                    histogram :=
                      foldl dict_add (histogram st)
                        (reduceByKey_collectAsMap ord (map (\<lambda>s. (s, 1)) (admitted st batch))),
                    sketch :=
                      sketch_plus st (map (\<lambda>x. (x, 1)) (admitted st batch)) (sketch st),
                    stopping_condition :=
                      (THRESHOLD \<le> fst (streamLength st) + int (length batch)
                         \<or> stopping_condition st) \<rparr>)
            else Inl OverflowError)"
proof -
  let ?adm = "filter (\<lambda>x. left st \<le> x \<and> x \<le> right st) batch"
  let ?st3 = "st\<lparr> streamLength :=
                      (fst (streamLength st) + int (length batch),
                       snd (streamLength st) + int (length ?adm)),
                  histogram :=
                      foldl dict_add (histogram st)
                        (reduceByKey_collectAsMap ord (map (\<lambda>s. (s, 1)) ?adm)) \<rparr>"
  have wf3: "wf_state ?st3"
    using assms(1) by (simp add: wf_state_def)
  have sp: "sketch_plus ?st3 = sketch_plus st"
    by (rule same_hashes) simp_all
  have cs: "count_sketch ord ?st3 ?adm =
              (if D st = 0 \<or> (\<forall>x \<in> set ?adm. int64_ok x)
               then Inr (?st3\<lparr>sketch := sketch_plus st (map (\<lambda>x. (x, 1)) ?adm) (sketch st)\<rparr>)
               else Inl OverflowError)"
    using count_sketch_result [OF wf3, of ord ?adm] by (simp add: sp)
  have pb: "process_batch ord st batch =
              bind_err (count_sketch ord ?st3 ?adm) (\<lambda>st4.
                Inr (if THRESHOLD \<le> fst (streamLength st4)
                     then st4\<lparr>stopping_condition := True\<rparr> else st4))"
    using assms(2) by (simp add: process_batch_def Let_def conj_commute)
  show ?thesis
    unfolding pb cs admitted_def by auto
qed

subsection \<open>What a batch does to the summary\<close>




subsection \<open>Invariants of the ingestion\<close>

lemma count_sketch_fields:
  assumes "count_sketch ord st f_batch = Inr st'"
  shows "st' = st\<lparr>sketch := sketch st'\<rparr>"
  using assms by (auto simp: count_sketch_def bind_err_def split: sum.splits)

lemma process_batch_fields:
  assumes "process_batch ord st batch = Inr st'"
  shows "(THRESHOLD \<le> fst (streamLength st) \<and> st' = st) \<or>
         (fst (streamLength st) < THRESHOLD \<and>
          streamLength st' = (fst (streamLength st) + int (length batch),
                              snd (streamLength st) + int (length (admitted st batch))) \<and>
          histogram st' = foldl dict_add (histogram st)
                            (reduceByKey_collectAsMap ord
                               (map (\<lambda>s. (s, 1)) (admitted st batch))) \<and>
          a st' = a st \<and> b st' = b st \<and> D st' = D st \<and> W st' = W st \<and>
          approx_histogram st' = approx_histogram st)"
proof (cases "THRESHOLD \<le> fst (streamLength st)")
  case True
  then show ?thesis using assms by (simp add: process_batch_def)
next
  case False
  let ?st3 = "st\<lparr> streamLength :=
                      (fst (streamLength st) + int (length batch),
                       snd (streamLength st) + int (length (admitted st batch))),
                  histogram :=
                      foldl dict_add (histogram st)
                        (reduceByKey_collectAsMap ord
                           (map (\<lambda>s. (s, 1)) (admitted st batch))) \<rparr>"
  from assms False obtain st4 where st4: "count_sketch ord ?st3 (admitted st batch) = Inr st4"
      and st': "st' = (if THRESHOLD \<le> fst (streamLength st4)
                       then st4\<lparr>stopping_condition := True\<rparr> else st4)"
    by (auto simp: process_batch_def Let_def admitted_def bind_err_def split: sum.splits)
  have eq: "st4 = ?st3\<lparr>sketch := sketch st4\<rparr>"
    using st4 by (rule count_sketch_fields)
  have "streamLength st4 = streamLength ?st3"
    by (subst eq) simp
  moreover have "histogram st4 = histogram ?st3"
    by (subst eq) simp
  moreover have "a st4 = a st" "b st4 = b st" "D st4 = D st" "W st4 = W st"
      "approx_histogram st4 = approx_histogram st"
    by (subst eq, simp)+
  ultimately show ?thesis using False st' by simp
qed

lemma set_dict_set: "set (dict_set d k v) \<subseteq> insert (k, v) (set d)"
  by (induction d) auto

lemma dict_add_positive:
  assumes "\<forall>e \<in> set d. 0 < snd e" "0 < snd e"
  shows "\<forall>e' \<in> set (dict_add d e). 0 < snd e'"
proof (cases "map_of d (fst e)")
  case None
  then show ?thesis
    using assms set_dict_set [of d "fst e" "snd e"] by (auto simp: dict_add_def)
next
  case (Some u)
  then have "(fst e, u) \<in> set d" by (rule map_of_SomeD)
  then have "0 < u" using assms(1) by force
  then show ?thesis
    using assms Some set_dict_set [of d "fst e" "u + snd e"] by (auto simp: dict_add_def)
qed

lemma foldl_dict_add_positive:
  assumes "\<forall>e \<in> set d. 0 < snd e" "\<forall>e \<in> set es. 0 < snd e"
  shows "\<forall>e' \<in> set (foldl dict_add d es). 0 < snd e'"
  using assms
proof (induction es arbitrary: d)
  case Nil
  then show ?case by simp
next
  case (Cons e es)
  have "0 < snd e"
    using Cons.prems(2) by simp
  with Cons.prems(1) have step: "\<forall>e' \<in> set (dict_add d e). 0 < snd e'"
    by (rule dict_add_positive)
  have "\<forall>e' \<in> set es. 0 < snd e'"
    using Cons.prems(2) by simp
  with step have "\<forall>e' \<in> set (foldl dict_add (dict_add d e) es). 0 < snd e'"
    by (rule Cons.IH)
  then show ?case by simp
qed

lemma batch_items_positive:
  "\<forall>e \<in> set (reduceByKey_collectAsMap ord (map (\<lambda>s. (s, 1)) xs)). 0 < snd e"
proof -
  have "\<forall>e \<in> set (foldl dict_add [] (map (\<lambda>s. (s, 1::int)) xs)). 0 < snd e"
    by (rule foldl_dict_add_positive) simp_all
  then show ?thesis
    by (simp add: reduceByKey_collectAsMap_def)
qed

lemma sum_values_wsum: "sum_list (map snd es) = wsum (\<lambda>x. 1) es"
  by (simp add: wsum_def)

lemma sum_list_ones: "sum_list (map (\<lambda>x. 1) xs) = int (length xs)"
  by (induction xs) simp_all

lemma batch_items_total:
  "sum_list (map snd (reduceByKey_collectAsMap ord (map (\<lambda>s. (s, 1)) xs))) = int (length xs)"
  by (simp add: sum_values_wsum wsum_reduceByKey wsum_map sum_list_ones)

lemma init_wf_state:
  assumes "0 \<le> d" "0 < w"
  shows "\<exists>st. init [d, w, l, r, k, port] src_a src_b = Inr st
              \<and> wf_state st \<and> counts_agree st \<and> items_fit st"
  using assms
  by (simp add: init_def randint_def np_zeros_def wf_state_def counts_agree_def items_fit_def)

lemma process_batch_wf_state:
  assumes "wf_state st" "process_batch ord st batch = Inr st'"
  shows "wf_state st'"
proof (cases "THRESHOLD \<le> fst (streamLength st)")
  case True
  then show ?thesis using assms by (simp add: process_batch_done)
next
  case False
  then show ?thesis
    using assms process_batch_result [OF assms(1), of ord batch]
    by (auto simp: wf_state_def sketch_plus_def split: if_splits)
qed

lemma process_batch_counts_agree:
  assumes "counts_agree st" "process_batch ord st batch = Inr st'"
  shows "counts_agree st'"
proof -
  from process_batch_fields [OF assms(2)]
  show ?thesis
  proof (elim disjE conjE)
    assume "st' = st"
    then show ?thesis using assms(1) by simp
  next
    assume sl: "streamLength st' = (fst (streamLength st) + int (length batch),
                              snd (streamLength st) + int (length (admitted st batch)))"
      and h: "histogram st' = foldl dict_add (histogram st)
                (reduceByKey_collectAsMap ord (map (\<lambda>s. (s, 1)) (admitted st batch)))"
    let ?items = "reduceByKey_collectAsMap ord (map (\<lambda>s. (s, 1)) (admitted st batch))"
    have "sum_list (map snd (histogram st'))
            = wsum (\<lambda>x. 1) (foldl dict_add (histogram st) ?items)"
      by (simp only: h sum_values_wsum)
    also have "\<dots> = wsum (\<lambda>x. 1) (histogram st) + wsum (\<lambda>x. 1) ?items"
      by (rule wsum_foldl_dict_add)
    also have "\<dots> = sum_list (map snd (histogram st)) + sum_list (map snd ?items)"
      by (simp only: sum_values_wsum)
    finally have total: "sum_list (map snd (histogram st'))
            = sum_list (map snd (histogram st)) + int (length (admitted st batch))"
      by (simp only: batch_items_total)
    have "\<forall>e \<in> set (histogram st). 0 < snd e"
      using assms(1) by (simp add: counts_agree_def)
    then have "\<forall>e \<in> set (foldl dict_add (histogram st) ?items). 0 < snd e"
      using batch_items_positive by (rule foldl_dict_add_positive)
    then have positive: "\<forall>e \<in> set (histogram st'). 0 < snd e"
      by (simp only: h)
    from total positive show ?thesis
      using assms(1) sl by (simp add: counts_agree_def)
  qed
qed

lemma items_fit_keys: "items_fit st \<longleftrightarrow> (\<forall>k \<in> fst ` set (histogram st). int64_ok k)"
  by (simp add: items_fit_def)

lemma process_batch_items_fit:
  assumes "wf_state st" "0 < D st" "items_fit st" "process_batch ord st batch = Inr st'"
  shows "items_fit st'"
proof (cases "THRESHOLD \<le> fst (streamLength st)")
  case True
  then show ?thesis using assms by (simp add: process_batch_done)
next
  case False
  then have running: "fst (streamLength st) < THRESHOLD" by simp
  have fit: "\<forall>x \<in> set (admitted st batch). int64_ok x"
    using assms(2,4) process_batch_result [OF assms(1) running, of ord batch]
    by (auto split: if_splits)
  have "histogram st' = foldl dict_add (histogram st)
          (reduceByKey_collectAsMap ord (map (\<lambda>s. (s, 1)) (admitted st batch)))"
    using process_batch_fields [OF assms(4)] running by auto
  then have "fst ` set (histogram st') = fst ` set (histogram st) \<union> set (admitted st batch)"
    by (simp add: keys_foldl_dict_add keys_reduceByKey image_image)
  then show ?thesis
    using assms(3) fit unfolding items_fit_keys by auto
qed

lemma counts_agree_empty:
  assumes "counts_agree st" "snd (streamLength st) = 0"
  shows "histogram st = []"
proof (rule ccontr)
  assume "histogram st \<noteq> []"
  then obtain e es where h: "histogram st = e # es"
    by (cases "histogram st") auto
  have all: "\<forall>e' \<in> set (e # es). 0 < snd e'"
    using assms(1) h by (simp add: counts_agree_def)
  then have "0 < snd e" by simp
  moreover have "0 \<le> sum_list (map snd es)"
  proof (rule sum_list_nonneg)
    fix v assume "v \<in> set (map snd es)"
    then obtain e' where "e' \<in> set es" "v = snd e'" by auto
    then show "0 \<le> v" using all by force
  qed
  ultimately have "0 < sum_list (map snd (histogram st))"
    using h by simp
  then show False using assms by (simp add: counts_agree_def)
qed

lemma compute_approx_fields:
  assumes "compute_approx st = Inr st'"
  shows "st' = st\<lparr>approx_histogram := approx_histogram st'\<rparr>"
  using assms by (auto simp: compute_approx_def bind_err_def split: sum.splits)

lemma output_section_fields:
  assumes "output_section st = Inr (st', rep)"
  shows "st' = st\<lparr>approx_histogram := approx_histogram st'\<rparr>"
proof -
  from assms obtain st1 where "compute_approx st = Inr st1" "st' = st1"
    by (auto simp: output_section_def bind_err_def split: sum.splits)
  then show ?thesis by (simp add: compute_approx_fields)
qed

subsection \<open>The order of the items in the histogram\<close>

lemma order_dict_set:
  "map fst (dict_set d k v) = (if k \<in> fst ` set d then map fst d else map fst d @ [k])"
  by (induction d) auto

lemma order_dict_add:
  "map fst (dict_add d e)
     = (if fst e \<in> fst ` set d then map fst d else map fst d @ [fst e])"
  by (simp add: dict_add_def order_dict_set split: option.splits)

lemma order_foldl_dict_add:
  assumes "distinct (map fst es)"
  shows "map fst (foldl dict_add d es)
           = map fst d @ filter (\<lambda>k. k \<notin> fst ` set d) (map fst es)"
  using assms
proof (induction es arbitrary: d)
  case Nil
  show ?case by simp
next
  case (Cons e es)
  have new: "fst e \<notin> fst ` set es" and rest: "distinct (map fst es)"
    using Cons.prems by (simp_all add: image_iff)
  have same: "filter (\<lambda>k. k \<noteq> fst e \<and> k \<notin> fst ` set d) (map fst es)
                = filter (\<lambda>k. k \<notin> fst ` set d) (map fst es)"
  proof (rule filter_cong [OF refl])
    fix x assume "x \<in> set (map fst es)"
    then have "x \<in> fst ` set es" by simp
    with new have "x \<noteq> fst e" by blast
    then show "(x \<noteq> fst e \<and> x \<notin> fst ` set d) = (x \<notin> fst ` set d)" by simp
  qed
  show ?case
    by (simp add: Cons.IH [OF rest] order_dict_add keys_dict_add same insert_absorb)
qed

lemma distinct_dict_add:
  "distinct (map fst d) \<Longrightarrow> distinct (map fst (dict_add d e))"
  by (auto simp: order_dict_add)

lemma distinct_foldl_dict_add:
  "distinct (map fst d) \<Longrightarrow> distinct (map fst (foldl dict_add d es))"
  by (induction es arbitrary: d) (simp_all add: distinct_dict_add)

lemma distinct_reduceByKey: "distinct (map fst (reduceByKey_collectAsMap ord pairs))"
proof -
  have "distinct (map fst (foldl dict_add [] pairs))"
    by (rule distinct_foldl_dict_add) simp
  moreover have "mset (map fst (reduceByKey_collectAsMap ord pairs))
                   = mset (map fst (foldl dict_add [] pairs))"
    by (simp add: reduceByKey_collectAsMap_def)
  ultimately show ?thesis
    using mset_eq_imp_distinct_iff by blast
qed

lemma process_batch_order:
  assumes "process_batch ord st batch = Inr st'" "fst (streamLength st) < THRESHOLD"
  shows "map fst (histogram st')
           = map fst (histogram st)
             @ filter (\<lambda>k. k \<notin> fst ` set (histogram st))
                 (map fst (reduceByKey_collectAsMap ord
                             (map (\<lambda>s. (s, 1)) (admitted st batch))))"
proof -
  have "histogram st' = foldl dict_add (histogram st)
          (reduceByKey_collectAsMap ord (map (\<lambda>s. (s, 1)) (admitted st batch)))"
    using process_batch_fields [OF assms(1)] assms(2) by auto
  then show ?thesis
    by (simp add: order_foldl_dict_add [OF distinct_reduceByKey])
qed

subsection \<open>The output computation on an empty histogram; the ranking\<close>

lemma py_get_Nil [simp]: "py_get [] i = Inl IndexError"
  by (simp add: py_get_def py_index_def)

lemma top_loop_no_items:
  "top_loop pr [] ah ks r = (if ks = [] then Inr r else Inl IndexError)"
  by (cases ks) simp_all

lemma tie_loop_no_items: "tie_loop pr [] ah k r = Inl IndexError"
  by (subst tie_loop.simps) simp

lemma statistics_no_items:
  assumes "histogram st = []"
  shows "statistics st = Inl IndexError"
proof -
  have "desc_histogram st = []"
    using assms by (simp add: desc_histogram_def py_sorted_reverse_def)
  then have "branch pr st = Inl IndexError" for pr
    by (simp add: branch_def top_loop_no_items tie_loop_no_items)
  then show ?thesis by (simp add: statistics_def)
qed

lemma outputs_no_items:
  assumes "histogram st = []"
  shows "outputs st = Inl IndexError"
  using assms by (simp add: outputs_def compute_approx_def statistics_no_items)

lemma py_sorted_reverse_sorted:
  "sorted_wrt (\<lambda>x y. f y \<le> f x) (py_sorted_reverse f xs)"
proof -
  have "sorted (map f (sort_key f (rev xs)))"
    by (rule sorted_sort_key)
  then have "sorted_wrt (\<lambda>x y. f x \<le> f y) (sort_key f (rev xs))"
    by (simp add: sorted_map)
  then show ?thesis
    by (simp add: py_sorted_reverse_def sorted_wrt_rev)
qed

lemma py_sorted_reverse_stable:
  "filter (\<lambda>e. f e = v) (py_sorted_reverse f xs) = filter (\<lambda>e. f e = v) xs"
proof -
  have "filter (\<lambda>e. f e = v) (py_sorted_reverse f xs)
          = rev (filter (\<lambda>e. f e = v) (sort_key f (rev xs)))"
    by (simp add: py_sorted_reverse_def rev_filter)
  also have "\<dots> = rev (filter (\<lambda>e. f e = v) (rev xs))"
    by (simp only: sort_key_stable)
  also have "\<dots> = filter (\<lambda>e. f e = v) xs"
    by (simp add: rev_filter)
  finally show ?thesis .
qed

text \<open>
  C3, as stated, fails: the same two items, each seen once, are ranked in the order of
  their arrival. No secondary key is applied. (Each batch holds one item, so the order
  in which Spark lists the keys of a batch plays no part.)
\<close>

theorem C3_ties_follow_arrival:
  "map_sum id desc_histogram (run ord_first [1, 1, 0, 9, 2, 8888] src_alt src_alt [[1], [2]])
     = Inr [(1, 1), (2, 1)] \<and>
   map_sum id desc_histogram (run ord_first [1, 1, 0, 9, 2, 8888] src_alt src_alt [[2], [1]])
     = Inr [(2, 1), (1, 1)]"
  by code_simp

text \<open>
  C3, amended: the ranking holds the entries of the histogram ordered by true frequency,
  descending, and the entries with one and the same true frequency keep the order they
  have in the histogram. A processed batch leaves the items already in the histogram
  in their places and appends the items it admits for the first time, in the order in
  which the dictionary collected from Spark for that batch lists them (each distinct
  admitted item once): an item first admitted in an earlier batch precedes one first
  admitted in a later batch, and no key of the program orders the items first admitted
  in one and the same batch.
\<close>

theorem C3_ranking_descending_stable:
  "sorted_wrt (\<lambda>x y. snd y \<le> snd x) (desc_histogram st') \<and>
   mset (desc_histogram st') = mset (histogram st') \<and>
   filter (\<lambda>e. snd e = v) (desc_histogram st') = filter (\<lambda>e. snd e = v) (histogram st') \<and>
   (fst (streamLength st) < THRESHOLD \<and> process_batch ord st batch = Inr st' \<longrightarrow>
      map fst (histogram st')
        = map fst (histogram st)
          @ filter (\<lambda>k. k \<notin> fst ` set (histogram st))
              (map fst (reduceByKey_collectAsMap ord (map (\<lambda>s. (s, 1)) (admitted st batch))))
      \<and> distinct (map fst (reduceByKey_collectAsMap ord (map (\<lambda>s. (s, 1)) (admitted st batch))))
      \<and> set (map fst (reduceByKey_collectAsMap ord (map (\<lambda>s. (s, 1)) (admitted st batch))))
          = set (admitted st batch))"
proof -
  have "sorted_wrt (\<lambda>x y. snd y \<le> snd x) (desc_histogram st')"
    by (simp add: desc_histogram_def py_sorted_reverse_sorted)
  moreover have "mset (desc_histogram st') = mset (histogram st')"
    by (simp add: desc_histogram_def py_sorted_reverse_def)
  moreover have "filter (\<lambda>e. snd e = v) (desc_histogram st')
                   = filter (\<lambda>e. snd e = v) (histogram st')"
    by (simp add: desc_histogram_def py_sorted_reverse_stable)
  moreover have "set (map fst (reduceByKey_collectAsMap ord
                                 (map (\<lambda>s. (s, 1)) (admitted st batch))))
                   = set (admitted st batch)"
    using keys_reduceByKey [of ord "map (\<lambda>s. (s, 1)) (admitted st batch)"]
    by (simp add: image_image)
  ultimately show ?thesis
    using process_batch_order [of ord st batch st'] distinct_reduceByKey by blast
qed

theorem C3_ranking_descending_stable_witness:
  "fst (streamLength ex_mid) < THRESHOLD
   \<and> process_batch ord_first ex_mid [3, 1, 12, 3, 0]
       = Inr (ex_mid\<lparr>streamLength := (8, 7), histogram := [(1, 3), (2, 1), (3, 2), (0, 1)],
                     sketch := [[2, 5]]\<rparr>)
   \<and> histogram ex_mid = [(1, 2), (2, 1)]
   \<and> admitted ex_mid [3, 1, 12, 3, 0] = [3, 1, 3, 0]
   \<and> reduceByKey_collectAsMap ord_first (map (\<lambda>s. (s, 1)) [3, 1, 3, 0])
       = [(3, 2), (1, 1), (0, 1)]
   \<and> map fst [(1, 3), (2, 1), (3, 2), (0, 1 :: int)]
       = map fst (histogram ex_mid)
         @ filter (\<lambda>k. k \<notin> fst ` set (histogram ex_mid))
             (map fst (reduceByKey_collectAsMap ord_first
                         (map (\<lambda>s. (s, 1)) (admitted ex_mid [3, 1, 12, 3, 0]))))
   \<and> desc_histogram (ex_mid\<lparr>streamLength := (8, 7),
                              histogram := [(1, 3), (2, 1), (3, 2), (0, 1)],
                              sketch := [[2, 5]]\<rparr>)
       = [(1, 3), (3, 2), (2, 1), (0, 1)]
   \<and> filter (\<lambda>e. snd e = 1)
        (desc_histogram (ex_mid\<lparr>streamLength := (8, 7),
                                 histogram := [(1, 3), (2, 1), (3, 2), (0, 1)],
                                 sketch := [[2, 5]]\<rparr>))
       = filter (\<lambda>e. snd e = 1) [(1, 3), (2, 1), (3, 2), (0, 1)]"
proof -
  let ?st' = "ex_mid\<lparr>streamLength := (8, 7), histogram := [(1, 3), (2, 1), (3, 2), (0, 1)],
                     sketch := [[2, 5]]\<rparr>"
  have running: "fst (streamLength ex_mid) < THRESHOLD"
    by (simp add: ex_mid_def ex_state_def THRESHOLD_def)
  have pb: "process_batch ord_first ex_mid [3, 1, 12, 3, 0] = Inr ?st'"
    by code_simp
  have h: "histogram ex_mid = [(1, 2), (2, 1)]" "histogram ?st' = [(1, 3), (2, 1), (3, 2), (0, 1)]"
    by (simp_all add: ex_mid_def)
  have adm: "admitted ex_mid [3, 1, 12, 3, 0] = [3, 1, 3, 0]"
    by code_simp
  have items: "reduceByKey_collectAsMap ord_first (map (\<lambda>s. (s, 1)) [3, 1, 3, 0])
                 = [(3, 2), (1, 1), (0, 1)]"
    by code_simp
  have ranking: "desc_histogram ?st' = [(1, 3), (3, 2), (2, 1), (0, 1)]"
    by code_simp
  from C3_ranking_descending_stable [of ?st' 1 ex_mid ord_first "[3, 1, 12, 3, 0]"] running pb
  have "filter (\<lambda>e. snd e = 1) (desc_histogram ?st')
          = filter (\<lambda>e. snd e = 1) (histogram ?st')"
    and "map fst (histogram ?st')
        = map fst (histogram ex_mid)
          @ filter (\<lambda>k. k \<notin> fst ` set (histogram ex_mid))
              (map fst (reduceByKey_collectAsMap ord_first
                          (map (\<lambda>s. (s, 1)) (admitted ex_mid [3, 1, 12, 3, 0]))))"
    by blast+
  then show ?thesis
    unfolding h(2) using running pb h(1) adm items ranking by simp
qed

subsection \<open>The estimate, in closed form\<close>














subsection \<open>Configuration checks at construction\<close>

text \<open>
  C7, as stated, fails: the configuration \<open>D = 0\<close>, \<open>W = 0\<close>, \<open>left = 5 > right = 3\<close>,
  \<open>K = -1\<close> is accepted, and every value is stored as given.
\<close>

theorem C7_invalid_config_accepted:
  "init [0, 0, 5, 3, -1, 8888] src_zero src_zero =
     Inr \<lparr> D = 0, W = 0, left = 5, right = 3, K = -1, portExp = 8888,
           streamLength = (0, 0), histogram = [], approx_histogram = [],
           a = [], b = [], sketch = [], stopping_condition = False \<rparr>"
  by (simp add: init_def randint_def np_zeros_def)

text \<open>
  C7, amended: with six arguments, construction checks nothing itself. It fails exactly
  when \<open>D < 0\<close> or \<open>W < 0\<close>, with the \<^verbatim>\<open>ValueError\<close> of the array allocation; in every
  other case, including \<open>D = 0\<close>, \<open>W = 0\<close>, \<open>left > right\<close> and \<open>K < 0\<close>, it succeeds and
  stores \<open>D\<close>, \<open>W\<close>, \<open>left\<close>, \<open>right\<close> and \<open>K\<close> unchanged (nothing is clamped).
\<close>

theorem C7_init_checks_only_dimensions:
  "(d < 0 \<or> w < 0 \<longrightarrow> init [d, w, l, r, k, port] src_a src_b = Inl ValueError) \<and>
   (\<not> (d < 0 \<or> w < 0) \<longrightarrow>
      (\<exists>st. init [d, w, l, r, k, port] src_a src_b = Inr st \<and>
            D st = d \<and> W st = w \<and> left st = l \<and> right st = r \<and> K st = k))"
  by (auto simp: init_def randint_def np_zeros_def)

theorem C7_init_checks_only_dimensions_witness:
  "init [-1, 3, 0, 9, 2, 8888] src_zero src_zero = Inl ValueError \<and>
   (\<exists>st. init [0, 0, 5, 3, -1, 8888] src_zero src_zero = Inr st \<and>
         D st = 0 \<and> W st = 0 \<and> left st = 5 \<and> right st = 3 \<and> K st = -1)"
  using C7_init_checks_only_dimensions [of "-1" 3 0 9 2 8888 src_zero src_zero]
        C7_init_checks_only_dimensions [of 0 0 5 3 "-1" 8888 src_zero src_zero]
  by simp

subsection \<open>The normalisation of F2 without admitted items\<close>

text \<open>
  C8, as stated, fails: no sentinel is returned. On a stream of ten million items that
  all lie outside \<open>[left, right]\<close> the count of admitted items is \<open>0\<close> and the program
  ends with an \<^verbatim>\<open>IndexError\<close>; and the normalisation itself, evaluated with a count of
  \<open>0\<close>, raises \<^verbatim>\<open>ZeroDivisionError\<close>.
\<close>

theorem C8_no_sentinel:
  "main ord_first [1, 2, 0, 9, 1, 8888] src_alt src_alt [replicate 10000000 10]
     = Some (Inl IndexError) \<and>
   print_F2 ([], []) 0 = Inl ZeroDivisionError"
proof -
  have i: "init [1, 2, 0, 9, 1, 8888] src_alt src_alt = Inr ex_state"
    by code_simp
  have pb: "process_batch ord_first ex_state (replicate 10000000 10)
              = Inr (ex_state\<lparr>streamLength := (10000000, 0), stopping_condition := True\<rparr>)"
    by (simp add: process_batch_def THRESHOLD_def count_sketch_def
          np_arange_def sketch_dict_def ex_state_def)
  have "outputs (ex_state\<lparr>streamLength := (10000000, 0), stopping_condition := True\<rparr>)
          = Inl IndexError"
    by (rule outputs_no_items) (simp add: ex_state_def)
  then have "main ord_first [1, 2, 0, 9, 1, 8888] src_alt src_alt [replicate 10000000 10]
               = Some (Inl IndexError)"
    by (simp add: main_def run_def i pb)
  moreover have "print_F2 ([], []) 0 = Inl ZeroDivisionError"
    by (simp add: print_F2_def)
  ultimately show ?thesis by simp
qed

text \<open>
  C8, amended: when \<open>totalAdmitted\<close> is \<open>0\<close> at reporting time no F2 value is produced.
  The histogram is then empty and the output computation stops with an \<^verbatim>\<open>IndexError\<close>
  before it reaches the normalisation; the normalisation itself raises
  \<^verbatim>\<open>ZeroDivisionError\<close> when the count is \<open>0\<close>.
\<close>

theorem C8_zero_admitted_raises:
  "(counts_agree st \<and> snd (streamLength st) = 0 \<longrightarrow> outputs st = Inl IndexError) \<and>
   print_F2 f2 0 = Inl ZeroDivisionError"
  by (simp add: outputs_no_items counts_agree_empty print_F2_def)

theorem C8_zero_admitted_raises_witness:
  "counts_agree (ex_state\<lparr>streamLength := (10000000, 0), stopping_condition := True\<rparr>) \<and>
   snd (streamLength (ex_state\<lparr>streamLength := (10000000, 0), stopping_condition := True\<rparr>)) = 0 \<and>
   outputs (ex_state\<lparr>streamLength := (10000000, 0), stopping_condition := True\<rparr>)
     = Inl IndexError \<and>
   print_F2 ([9], [Fin 9]) 0 = Inl ZeroDivisionError"
proof -
  have "counts_agree (ex_state\<lparr>streamLength := (10000000, 0), stopping_condition := True\<rparr>)"
    by (simp add: counts_agree_def ex_state_def)
  moreover have
    "snd (streamLength (ex_state\<lparr>streamLength := (10000000, 0), stopping_condition := True\<rparr>)) = 0"
    by simp
  ultimately show ?thesis
    using C8_zero_admitted_raises
      [of "ex_state\<lparr>streamLength := (10000000, 0), stopping_condition := True\<rparr>" "([9], [Fin 9])"]
    by blast
qed

subsection \<open>Monotone counters, pure reads\<close>

text \<open>
  C9, as stated, fails for the sketch cells: with one row and one bucket, the item \<open>1\<close>
  (sign \<open>+1\<close>) brings the cell to \<open>1\<close>, and the item \<open>2\<close> (sign \<open>-1\<close>) brings it back to
  \<open>0\<close>: an update has decreased the magnitude of a counter.
\<close>

theorem C9_cell_magnitude_decreases:
  "map_sum id sketch (run ord_first [1, 1, 0, 9, 1, 8888] src_zero src_zero [[1]])
     = Inr [[1]] \<and>
   map_sum id sketch (run ord_first [1, 1, 0, 9, 1, 8888] src_zero src_zero [[1], [2]])
     = Inr [[0]]"
  by code_simp

text \<open>
  C9, amended: during ingestion the two running counts and every histogram entry never
  decrease: a batch whose admitted items fit in 64 bits is processed on every state of
  the initialised shape, and whenever a batch is processed both counts and every
  existing entry are at least what they were. The sketch cells are signed accumulators,
  about which nothing of the kind is claimed. The read operations change nothing of
  this state: after the computation of the estimates, and after the whole output section
  (the estimates, then the statistics), the counts, the histogram, the sketch and the
  hash parameters are what they were.
\<close>

theorem C9_counts_monotone_reads_pure:
  "(wf_state st \<and> (D st = 0 \<or> (\<forall>x \<in> set (admitted st batch). int64_ok x)) \<longrightarrow>
      (\<exists>st'. process_batch ord st batch = Inr st')) \<and>
   (\<forall>st'. process_batch ord st batch = Inr st' \<longrightarrow>
      fst (streamLength st) \<le> fst (streamLength st') \<and>
      snd (streamLength st) \<le> snd (streamLength st') \<and>
      (\<forall>item v. map_of (histogram st) item = Some v \<longrightarrow>
         (\<exists>v'. map_of (histogram st') item = Some v' \<and> v \<le> v'))) \<and>
   (\<forall>st'. compute_approx st = Inr st' \<longrightarrow>
      streamLength st' = streamLength st \<and> histogram st' = histogram st \<and>
      sketch st' = sketch st \<and> a st' = a st \<and> b st' = b st) \<and>
   (\<forall>st' rep. output_section st = Inr (st', rep) \<longrightarrow>
      streamLength st' = streamLength st \<and> histogram st' = histogram st \<and>
      sketch st' = sketch st \<and> a st' = a st \<and> b st' = b st)"
proof (intro conjI allI impI)
  assume h: "wf_state st \<and> (D st = 0 \<or> (\<forall>x \<in> set (admitted st batch). int64_ok x))"
  then have wf: "wf_state st" by simp
  show "\<exists>st'. process_batch ord st batch = Inr st'"
  proof (cases "THRESHOLD \<le> fst (streamLength st)")
    case True
    then show ?thesis by (simp add: process_batch_done)
  next
    case False
    then show ?thesis using h process_batch_result [OF wf, of ord batch] by auto
  qed
next
  fix st' assume pb: "process_batch ord st batch = Inr st'"
  show "fst (streamLength st) \<le> fst (streamLength st')"
    using process_batch_fields [OF pb] by auto
  show "snd (streamLength st) \<le> snd (streamLength st')"
    using process_batch_fields [OF pb] by auto
  fix item v assume v: "map_of (histogram st) item = Some v"
  from process_batch_fields [OF pb]
  show "\<exists>v'. map_of (histogram st') item = Some v' \<and> v \<le> v'"
  proof (elim disjE conjE)
    assume "st' = st"
    then show ?thesis using v by simp
  next
    assume h: "histogram st' = foldl dict_add (histogram st)
                 (reduceByKey_collectAsMap ord (map (\<lambda>s. (s, 1)) (admitted st batch)))"
    show ?thesis
      by (simp add: h v map_of_foldl_dict_add keys_reduceByKey wsum_reduceByKey
            wsum_indicator_count image_image)
  qed
next
  fix st' assume ca: "compute_approx st = Inr st'"
  have eq: "st' = st\<lparr>approx_histogram := approx_histogram st'\<rparr>"
    using ca by (rule compute_approx_fields)
  show "streamLength st' = streamLength st" by (subst eq) simp
  show "histogram st' = histogram st" by (subst eq) simp
  show "sketch st' = sketch st" by (subst eq) simp
  show "a st' = a st" by (subst eq) simp
  show "b st' = b st" by (subst eq) simp
next
  fix st' rep assume os: "output_section st = Inr (st', rep)"
  have eq: "st' = st\<lparr>approx_histogram := approx_histogram st'\<rparr>"
    using os by (rule output_section_fields)
  show "streamLength st' = streamLength st" by (subst eq) simp
  show "histogram st' = histogram st" by (subst eq) simp
  show "sketch st' = sketch st" by (subst eq) simp
  show "a st' = a st" by (subst eq) simp
  show "b st' = b st" by (subst eq) simp
qed

theorem C9_counts_monotone_reads_pure_witness:
  "wf_state ex_mid \<and> admitted ex_mid [1, 12] = [1] \<and> int64_ok 1
   \<and> streamLength ex_mid = (3, 3) \<and> map_of (histogram ex_mid) 1 = Some 2
   \<and> process_batch ord_first ex_mid [1, 12]
       = Inr (ex_mid\<lparr>streamLength := (5, 4), histogram := [(1, 3), (2, 1)],
                     sketch := [[1, 3]]\<rparr>)
   \<and> (\<exists>st'. process_batch ord_first ex_mid [1, 12] = Inr st'
         \<and> fst (streamLength ex_mid) \<le> fst (streamLength st')
         \<and> snd (streamLength ex_mid) \<le> snd (streamLength st')
         \<and> (\<exists>v'. map_of (histogram st') 1 = Some v' \<and> 2 \<le> v'))
   \<and> (\<exists>st'. compute_approx ex_done = Inr st'
         \<and> approx_histogram st' = [(1, Fin 2), (2, Fin 1)]
         \<and> streamLength st' = streamLength ex_done \<and> histogram st' = histogram ex_done
         \<and> sketch st' = sketch ex_done \<and> a st' = a ex_done \<and> b st' = b ex_done)
   \<and> (\<exists>st' rep. output_section ex_done = Inr (st', rep)
         \<and> items rep = [(1, 2, Fin 2)]
         \<and> streamLength st' = streamLength ex_done \<and> histogram st' = histogram ex_done
         \<and> sketch st' = sketch ex_done \<and> a st' = a ex_done \<and> b st' = b ex_done)"
proof -
  have wf: "wf_state ex_mid"
    by (simp add: wf_state_def ex_mid_def ex_state_def)
  have adm: "admitted ex_mid [1, 12] = [1]"
    by code_simp
  have fit: "int64_ok 1"
    by (simp add: int64_ok_def)
  have fits: "D ex_mid = 0 \<or> (\<forall>x \<in> set (admitted ex_mid [1, 12]). int64_ok x)"
    using fit by (simp add: adm)
  have vals: "streamLength ex_mid = (3, 3)" "map_of (histogram ex_mid) 1 = Some 2"
    by (simp_all add: ex_mid_def)
  have pb: "process_batch ord_first ex_mid [1, 12]
       = Inr (ex_mid\<lparr>streamLength := (5, 4), histogram := [(1, 3), (2, 1)],
                     sketch := [[1, 3]]\<rparr>)"
    by code_simp
  have ca: "compute_approx ex_done
              = Inr (ex_done\<lparr>approx_histogram := [(1, Fin 2), (2, Fin 1)]\<rparr>)"
    by code_simp
  have os: "output_section ex_done
              = Inr (ex_done\<lparr>approx_histogram := [(1, Fin 2), (2, Fin 1)]\<rparr>,
                     \<lparr>total_items = 10000000, total_items_R = 3, distinct_items_R = 2,
                       items = [(1, 2, Fin 2)], avg_err = Fin 0, F2 = 8 / 9,
                       F2_estimate = Fin (8 / 9)\<rparr>)"
    by code_simp
  have approx: "approx_histogram (ex_done\<lparr>approx_histogram := [(1, Fin 2), (2, Fin 1)]\<rparr>)
                  = [(1, Fin 2), (2, Fin 1)]"
    and rep: "items \<lparr>total_items = 10000000, total_items_R = 3, distinct_items_R = 2,
                       items = [(1, 2, Fin 2)], avg_err = Fin 0, F2 = 8 / 9,
                       F2_estimate = Fin (8 / 9)\<rparr> = [(1, 2, Fin 2)]"
    by simp_all
  show ?thesis
    using C9_counts_monotone_reads_pure [of ex_mid "[1, 12]" ord_first]
      C9_counts_monotone_reads_pure [of ex_done "[]" ord_first] wf adm fit fits vals pb ca os
      approx rep
    by blast
qed

subsection \<open>Evaluating the program on whole streams\<close>

lemmas batch_eval =
  process_batch_def THRESHOLD_def dict_add_def count_sketch_def np_arange_def sketch_dict_def
  h_hash_def g_hash_def affine64_def int64_ok_def wrap64_def sketch_add_def py_index_def
  Let_def p_def

text \<open>
  The example state \<open>ex_state\<close> is the initial state of a run, \<open>ex_mid\<close> is the state of
  that run after a first batch, and \<open>ex_done\<close> its state after one batch that reaches
  the threshold.
\<close>

lemma ex_state_initial: "init [1, 2, 0, 9, 1, 8888] src_alt src_alt = Inr ex_state"
  by code_simp

lemma ex_mid_reached:
  "run ord_first [1, 2, 0, 9, 1, 8888] src_alt src_alt [[1, 2, 1]] = Inr ex_mid"
  by code_simp

lemma ex_done_reached:
  "run ord_first [1, 2, 0, 9, 1, 8888] src_alt src_alt [[1, 2, 1] @ replicate 9999997 10]
     = Inr ex_done"
proof -
  have "process_batch ord_first ex_state ([1, 2, 1] @ replicate 9999997 10) = Inr ex_done"
    by (simp add: batch_eval ex_state_def ex_done_def)
  then show ?thesis
    unfolding run_def ex_state_initial bind_err_Inr ingest.simps by simp
qed

text \<open>
  In the streams below the admitted items of a batch have pairwise different
  frequencies, so their ranking is the same for every order of the keys of the
  collected dictionary; the runs are evaluated with the keys in the order of their
  first occurrence.
\<close>

subsection \<open>The items added by the tie extension\<close>

text \<open>
  C1 is violated by the code. With \<open>K = 1\<close> and the ranking \<open>2, 4, 1, 3\<close> (true
  frequencies \<open>5, 4, 3, 2\<close>; estimates \<open>9, 9, 5, 5\<close>) the estimate of the item of rank 2
  equals that of the item of rank 1, yet the item added to the reported set is the one
  of rank 4 (item \<open>3\<close>), not the compared one (item \<open>4\<close>): after the comparison with
  \<^verbatim>\<open>desc_histogram[K-1+count]\<close> the code increases \<^verbatim>\<open>count\<close> and reads
  \<^verbatim>\<open>desc_histogram[K+count]\<close>, two places further.
\<close>

theorem C1_tie_extension_adds_other_item:
  "main ord_first [1, 2, 1, 4, 1, 8888] src_alt src_alt
     [[2, 2, 2, 2, 2, 4, 4, 4, 4, 1, 1, 1, 3, 3] @ replicate 9999986 0] =
     Some (Inr \<lparr> total_items = 10000000, total_items_R = 14, distinct_items_R = 4,
                  items = [(2, 5, Fin 9), (3, 2, Fin 5)], avg_err = Fin (23 / 20),
                  F2 = 37 / 196, F2_estimate = Fin (39 / 49) \<rparr>)"
proof -
  have i: "init [1, 2, 1, 4, 1, 8888] src_alt src_alt =
             Inr \<lparr> D = 1, W = 2, left = 1, right = 4, K = 1, portExp = 8888,
                   streamLength = (0, 0), histogram = [], approx_histogram = [],
                   a = [1, 2], b = [0, 1], sketch = [[0, 0]],
                   stopping_condition = False \<rparr>"
    by code_simp
  have pb: "process_batch ord_first
              \<lparr> D = 1, W = 2, left = 1, right = 4, K = 1, portExp = 8888,
                streamLength = (0, 0), histogram = [], approx_histogram = [],
                a = [1, 2], b = [0, 1], sketch = [[0, 0]], stopping_condition = False \<rparr>
              ([2, 2, 2, 2, 2, 4, 4, 4, 4, 1, 1, 1, 3, 3] @ replicate 9999986 0) =
            Inr \<lparr> D = 1, W = 2, left = 1, right = 4, K = 1, portExp = 8888,
                  streamLength = (10000000, 14),
                  histogram = [(2, 5), (4, 4), (1, 3), (3, 2)],
                  approx_histogram = [], a = [1, 2], b = [0, 1],
                  sketch = [[9, 5]], stopping_condition = True \<rparr>"
    by (simp add: batch_eval)
  have out: "outputs \<lparr> D = 1, W = 2, left = 1, right = 4, K = 1, portExp = 8888,
                  streamLength = (10000000, 14),
                  histogram = [(2, 5), (4, 4), (1, 3), (3, 2)],
                  approx_histogram = [], a = [1, 2], b = [0, 1],
                  sketch = [[9, 5]], stopping_condition = True \<rparr> =
             Inr \<lparr> total_items = 10000000, total_items_R = 14, distinct_items_R = 4,
                  items = [(2, 5, Fin 9), (3, 2, Fin 5)], avg_err = Fin (23 / 20),
                  F2 = 37 / 196, F2_estimate = Fin (39 / 49) \<rparr>"
    by code_simp
  show ?thesis
    unfolding main_def run_def i bind_err_Inr ingest.simps pb
    by (simp add: out)
qed

subsection \<open>The second moment\<close>

text \<open>
  C2 is violated by the code. On the stream whose admitted items are \<open>1, 2, 2, 3, 3, 3\<close>
  (with \<open>K = 1\<close> and exact estimates) the program reports \<open>F2 = 27/36\<close> and the same
  value for the estimate: the loop over the items ranked after \<open>K\<close> adds the square of the
  frequency of the last item taken before it (here \<open>3\<close>) once per remaining item, where
  the sum over the items' own frequencies gives \<open>14/36\<close>.
\<close>

theorem C2_F2_uses_stale_pair:
  "main ord_first [1, 4, 1, 3, 1, 8888] src_alt src_alt [[1, 2, 2, 3, 3, 3] @ replicate 9999994 0] =
     Some (Inr \<lparr> total_items = 10000000, total_items_R = 6, distinct_items_R = 3,
                  items = [(3, 3, Fin 3)], avg_err = Fin 0,
                  F2 = 27 / 36, F2_estimate = Fin (27 / 36) \<rparr>) \<and>
   rat_of_int (1\<^sup>2 + 2\<^sup>2 + 3\<^sup>2) / 6\<^sup>2 = 14 / 36"
proof -
  have i: "init [1, 4, 1, 3, 1, 8888] src_alt src_alt =
             Inr \<lparr> D = 1, W = 4, left = 1, right = 3, K = 1, portExp = 8888,
                   streamLength = (0, 0), histogram = [], approx_histogram = [],
                   a = [1, 2], b = [0, 1], sketch = [[0, 0, 0, 0]],
                   stopping_condition = False \<rparr>"
    by code_simp
  have pb: "process_batch ord_first
              \<lparr> D = 1, W = 4, left = 1, right = 3, K = 1, portExp = 8888,
                streamLength = (0, 0), histogram = [], approx_histogram = [],
                a = [1, 2], b = [0, 1], sketch = [[0, 0, 0, 0]], stopping_condition = False \<rparr>
              ([1, 2, 2, 3, 3, 3] @ replicate 9999994 0) =
            Inr \<lparr> D = 1, W = 4, left = 1, right = 3, K = 1, portExp = 8888,
                  streamLength = (10000000, 6), histogram = [(1, 1), (2, 2), (3, 3)],
                  approx_histogram = [], a = [1, 2], b = [0, 1],
                  sketch = [[0, 1, 2, 3]], stopping_condition = True \<rparr>"
    by (simp add: batch_eval)
  have out: "outputs \<lparr> D = 1, W = 4, left = 1, right = 3, K = 1, portExp = 8888,
                  streamLength = (10000000, 6), histogram = [(1, 1), (2, 2), (3, 3)],
                  approx_histogram = [], a = [1, 2], b = [0, 1],
                  sketch = [[0, 1, 2, 3]], stopping_condition = True \<rparr> =
             Inr \<lparr> total_items = 10000000, total_items_R = 6, distinct_items_R = 3,
                  items = [(3, 3, Fin 3)], avg_err = Fin 0,
                  F2 = 27 / 36, F2_estimate = Fin (27 / 36) \<rparr>"
    by code_simp
  show ?thesis
    unfolding main_def run_def i bind_err_Inr ingest.simps pb
    by (simp add: out)
qed

subsection \<open>The indices read by the tie extension\<close>

text \<open>
  C10 is violated by the code. With one distinct item and \<open>K = 1\<close> the loop reads
  \<^verbatim>\<open>desc_histogram[1]\<close>; with three items of equal estimates and \<open>K = 1\<close> it reads
  \<^verbatim>\<open>desc_histogram[3]\<close>. Both reads are past the end and the program stops with an
  \<^verbatim>\<open>IndexError\<close>.
\<close>

theorem C10_tie_extension_reads_past_end:
  "main ord_first [1, 1, 7, 7, 1, 8888] src_alt src_alt [[7] @ replicate 9999999 0]
     = Some (Inl IndexError) \<and>
   main ord_first [1, 1, 1, 3, 1, 8888] src_alt src_alt [[1, 1, 1, 2, 2, 3] @ replicate 9999994 0]
     = Some (Inl IndexError)"
proof -
  have i1: "init [1, 1, 7, 7, 1, 8888] src_alt src_alt =
             Inr \<lparr> D = 1, W = 1, left = 7, right = 7, K = 1, portExp = 8888,
                   streamLength = (0, 0), histogram = [], approx_histogram = [],
                   a = [1, 2], b = [0, 1], sketch = [[0]], stopping_condition = False \<rparr>"
    by code_simp
  have pb1: "process_batch ord_first
              \<lparr> D = 1, W = 1, left = 7, right = 7, K = 1, portExp = 8888,
                streamLength = (0, 0), histogram = [], approx_histogram = [],
                a = [1, 2], b = [0, 1], sketch = [[0]], stopping_condition = False \<rparr>
              ([7] @ replicate 9999999 0) =
            Inr \<lparr> D = 1, W = 1, left = 7, right = 7, K = 1, portExp = 8888,
                  streamLength = (10000000, 1), histogram = [(7, 1)],
                  approx_histogram = [], a = [1, 2], b = [0, 1],
                  sketch = [[1]], stopping_condition = True \<rparr>"
    by (simp add: batch_eval)
  have out1: "outputs \<lparr> D = 1, W = 1, left = 7, right = 7, K = 1, portExp = 8888,
                  streamLength = (10000000, 1), histogram = [(7, 1)],
                  approx_histogram = [], a = [1, 2], b = [0, 1],
                  sketch = [[1]], stopping_condition = True \<rparr> = Inl IndexError"
    by code_simp
  have i2: "init [1, 1, 1, 3, 1, 8888] src_alt src_alt =
             Inr \<lparr> D = 1, W = 1, left = 1, right = 3, K = 1, portExp = 8888,
                   streamLength = (0, 0), histogram = [], approx_histogram = [],
                   a = [1, 2], b = [0, 1], sketch = [[0]], stopping_condition = False \<rparr>"
    by code_simp
  have pb2: "process_batch ord_first
              \<lparr> D = 1, W = 1, left = 1, right = 3, K = 1, portExp = 8888,
                streamLength = (0, 0), histogram = [], approx_histogram = [],
                a = [1, 2], b = [0, 1], sketch = [[0]], stopping_condition = False \<rparr>
              ([1, 1, 1, 2, 2, 3] @ replicate 9999994 0) =
            Inr \<lparr> D = 1, W = 1, left = 1, right = 3, K = 1, portExp = 8888,
                  streamLength = (10000000, 6), histogram = [(1, 3), (2, 2), (3, 1)],
                  approx_histogram = [], a = [1, 2], b = [0, 1],
                  sketch = [[6]], stopping_condition = True \<rparr>"
    by (simp add: batch_eval)
  have out2: "outputs \<lparr> D = 1, W = 1, left = 1, right = 3, K = 1, portExp = 8888,
                  streamLength = (10000000, 6), histogram = [(1, 3), (2, 2), (3, 1)],
                  approx_histogram = [], a = [1, 2], b = [0, 1],
                  sketch = [[6]], stopping_condition = True \<rparr> = Inl IndexError"
    by code_simp
  show ?thesis
    unfolding main_def run_def i1 i2 bind_err_Inr ingest.simps pb1 pb2
    by (simp add: out1 out2)
qed

end
